theory Spec2Isabelle
  imports Complex_Main "HOL-Library.Word"
begin

section \<open>Conventions of the embedding\<close>

text \<open>
  The sources are TypeScript classes. Each class becomes a record of its fields and each
  method a function that takes the record and returns the updated one. A byte of a
  \<^verbatim>\<open>Uint8Array\<close> or a \<^verbatim>\<open>Buffer\<close> is an \<open>8 word\<close>. JavaScript numbers
  are \<open>nat\<close>/\<open>int\<close> where they are buffer sizes, positions and indices, and rationals
  (\<open>rat\<close>) otherwise. The viewport, zoom and pan computations are exact: what is shown
  of them (clamping, guards, which fields change) does not depend on rounding. The
  brightness and luminance computations of the glyph encoders are rounded as IEEE doubles
  are (see the section on double precision arithmetic), because their comparisons do depend
  on it. The values NaN and Infinity are outside the model. A write past the end of a typed
  array is dropped by JavaScript, which is what list update \<open>xs[i := v]\<close> does in HOL.
\<close>

type_synonym byte = "8 word"

section \<open>WebcamViewer (true zoom variant): state\<close>

text \<open>
  The fields of the class \<^verbatim>\<open>WebcamViewer\<close> that the methods below read or write.
  \<open>restartTimer\<close> is \<open>None\<close> for \<^verbatim>\<open>null\<close> and \<open>Some d\<close> for a pending
  \<^verbatim>\<open>setTimeout\<close> handle whose callback is due at time \<open>d\<close> (milliseconds);
  \<open>ffmpeg\<close> is \<open>True\<close> once a capture subprocess handle has been stored. Three fields
  are not in the source: \<open>now\<close> is the clock of the event loop in milliseconds, and two
  are observation traces: \<open>frames\<close> lists the buffer contents at each call of
  \<^verbatim>\<open>renderFrame\<close>, and \<open>spawns\<close> lists, for each \<^verbatim>\<open>spawn('ffmpeg', ...)\<close>,
  the capture width, the capture height and the zoom level in force.
\<close>

record viewer =
  termWidth :: nat
  termHeight :: nat
  captureWidth :: nat
  captureHeight :: nat
  videoBuffer :: "byte list"
  bufferPos :: nat
  frameCount :: nat
  isRestarting :: bool
  restartTimer :: "nat option"
  ffmpeg :: bool
  pendingZoomLevel :: rat
  zoomLevel :: rat
  panX :: rat
  panY :: rat
  now :: nat
  frames :: "byte list list"
  spawns :: "(nat \<times> nat \<times> rat) list"

section \<open>Frame assembly: processVideoData\<close>

text \<open>
  \<^verbatim>\<open>renderFrame\<close> consumes the completed frame held in \<open>videoBuffer\<close>. For the frame
  assembler it is the "frame complete" signal, recorded here with the bytes it was raised on.
\<close>

definition renderFrame :: "viewer \<Rightarrow> viewer" where
  "renderFrame s = s\<lparr>frames := frames s @ [videoBuffer s]\<rparr>"

text \<open>
  The inner copy loop
  \<^verbatim>\<open>for (let i = 0; i < toRead; i++) videoBuffer[bufferPos + i] = chunk[offset + i]\<close>.
\<close>

definition copyBytes :: "byte list \<Rightarrow> nat \<Rightarrow> byte list \<Rightarrow> nat \<Rightarrow> nat \<Rightarrow> byte list" where
  "copyBytes buf pos chunk offset toRead =
     fold (\<lambda>i b. b[pos + i := chunk ! (offset + i)]) [0..<toRead] buf"

text \<open>
  The loop \<^verbatim>\<open>while (offset < chunk.length && this.bufferPos < expectedSize)\<close>, with the
  loop variable \<open>offset\<close> and the viewer as arguments.
\<close>

function processLoop :: "nat \<Rightarrow> byte list \<Rightarrow> nat \<Rightarrow> viewer \<Rightarrow> viewer" where
  "processLoop expectedSize chunk offset s =
     (if offset < length chunk \<and> bufferPos s < expectedSize then
        let toRead = min (expectedSize - bufferPos s) (length chunk - offset);
            s1 = s\<lparr>videoBuffer := copyBytes (videoBuffer s) (bufferPos s) chunk offset toRead\<rparr>;
            s2 = s1\<lparr>bufferPos := bufferPos s1 + toRead\<rparr>;
            offset' = offset + toRead;
            s3 = (if bufferPos s2 \<ge> expectedSize
                  then (let r = renderFrame s2;
                            r1 = r\<lparr>bufferPos := 0\<rparr>
                        in r1\<lparr>frameCount := frameCount r1 + 1\<rparr>)
                  else s2)
        in processLoop expectedSize chunk offset' s3
      else s)"
  by pat_completeness auto
termination
  by (relation "measure (\<lambda>(e, chunk, offset, s). length chunk - offset)") auto

definition processVideoData :: "byte list \<Rightarrow> viewer \<Rightarrow> viewer" where
  "processVideoData chunk s =
     (let expectedSize = captureWidth s * captureHeight s * 3
      in processLoop expectedSize chunk 0 s)"

text \<open>Feeding a sequence of chunks in order, one \<^verbatim>\<open>'data'\<close> event per chunk.\<close>

fun feed :: "byte list list \<Rightarrow> viewer \<Rightarrow> viewer" where
  "feed [] s = s"
| "feed (chunk # chunks) s = feed chunks (processVideoData chunk s)"

declare processLoop.simps [simp del]

text \<open>
  The \<open>i\<close>-th \<open>n\<close>-long slice of a byte sequence, for every full slice it holds: what a
  frame assembler with frame size \<open>n\<close> is expected to hand on.
\<close>

definition slices :: "nat \<Rightarrow> 'a list \<Rightarrow> 'a list list" where
  "slices n xs = map (\<lambda>i. take n (drop (i * n) xs)) [0..<length xs div n]"

text \<open>A viewer with a one-pixel frame (three bytes), used to run the definitions.\<close>

definition tinyViewer :: viewer where
  "tinyViewer = \<lparr>termWidth = 80, termHeight = 24, captureWidth = 1, captureHeight = 1,
     videoBuffer = [0, 0, 0], bufferPos = 0, frameCount = 0, isRestarting = False,
     restartTimer = None, ffmpeg = True, pendingZoomLevel = 1, zoomLevel = 1,
     panX = 1 / 2, panY = 1 / 2, now = 0, frames = [], spawns = []\<rparr>"

section \<open>WebcamViewer (true zoom variant): capture resolution, zoom, pan, restart\<close>

text \<open>\<^verbatim>\<open>Math.round\<close>: the nearest integer, halves rounded up.\<close>

definition jsRound :: "rat \<Rightarrow> int" where
  "jsRound x = \<lfloor>x + 1 / 2\<rfloor>"







definition panSpeed :: rat where
  "panSpeed = 2 / 100"

definition pan :: "rat \<Rightarrow> rat \<Rightarrow> viewer \<Rightarrow> viewer" where
  "pan dx dy s =
     (if zoomLevel s > 1 then
        let adjustedSpeed = panSpeed;
            s1 = s\<lparr>panX := max 0 (min 1 (panX s + dx * adjustedSpeed))\<rparr>
        in s1\<lparr>panY := max 0 (min 1 (panY s1 + dy * adjustedSpeed))\<rparr>
      else s)"

text \<open>
  \<^verbatim>\<open>pan\<close> of the dynamic resolution variant (\<^verbatim>\<open>webcam-dynamic-res.ts\<close>), whose pan
  centre is held in the fields \<^verbatim>\<open>zoomX\<close> and \<^verbatim>\<open>zoomY\<close> (here \<open>panX\<close> and
  \<open>panY\<close>) and whose pan speed of 0.05 is divided by the zoom level.
\<close>

definition panSpeedDynamic :: rat where
  "panSpeedDynamic = 5 / 100"

definition panDynamic :: "rat \<Rightarrow> rat \<Rightarrow> viewer \<Rightarrow> viewer" where
  "panDynamic dx dy s =
     (if zoomLevel s > 1 then
        let adjustedSpeed = panSpeedDynamic / zoomLevel s;
            s1 = s\<lparr>panX := max 0 (min 1 (panX s + dx * adjustedSpeed))\<rparr>
        in s1\<lparr>panY := max 0 (min 1 (panY s1 + dy * adjustedSpeed))\<rparr>
      else s)"

subsection \<open>The event loop around the debounce timer\<close>





text \<open>A viewer on an 80 x 24 terminal, capturing 800 x 480 at zoom 1, with nothing pending.\<close>

definition settledViewer :: viewer where
  "settledViewer = \<lparr>termWidth = 80, termHeight = 24, captureWidth = 800, captureHeight = 480,
     videoBuffer = replicate (800 * 480 * 3) 0, bufferPos = 0, frameCount = 0,
     isRestarting = False, restartTimer = None, ffmpeg = True, pendingZoomLevel = 1,
     zoomLevel = 1, panX = 1 / 2, panY = 1 / 2, now = 0, frames = [], spawns = []\<rparr>"

section \<open>WebcamViewer (true zoom variant): sampleVideoPixel\<close>

text \<open>A colour as the sources pass it around: an object with the fields \<open>r\<close>, \<open>g\<close>, \<open>b\<close>.\<close>

record 'a rgb =
  r :: 'a
  g :: 'a
  b :: 'a

text \<open>
  The method first maps the terminal cell to a position in the captured image, then clamps
  it, then reads the buffer. The intermediate values keep the names of the source:
  \<^verbatim>\<open>videoX\<close>, \<^verbatim>\<open>videoY\<close> (before clamping), \<^verbatim>\<open>x\<close>, \<^verbatim>\<open>y\<close> (after clamping) and
  \<^verbatim>\<open>idx\<close>. The rows 0 and \<open>termHeight - 1\<close> hold the status bars, hence
  \<^verbatim>\<open>displayHeight = termHeight - 2\<close> and \<^verbatim>\<open>adjustedY = termY - 1\<close>.
\<close>

definition videoX :: "nat \<Rightarrow> viewer \<Rightarrow> int" where
  "videoX termX s =
     (let viewWidth = of_nat (captureWidth s) / zoomLevel s;
          startX = (of_nat (captureWidth s) - viewWidth) * panX s
      in \<lfloor>startX + (of_nat termX / of_nat (termWidth s)) * viewWidth\<rfloor>)"

definition videoY :: "nat \<Rightarrow> viewer \<Rightarrow> int" where
  "videoY termY s =
     (let displayHeight = int (termHeight s) - 2;
          adjustedY = int termY - 1;
          viewHeight = of_nat (captureHeight s) / zoomLevel s;
          startY = (of_nat (captureHeight s) - viewHeight) * panY s
      in \<lfloor>startY + (of_int adjustedY / of_int displayHeight) * viewHeight\<rfloor>)"

definition clampedX :: "nat \<Rightarrow> viewer \<Rightarrow> int" where
  "clampedX termX s = max 0 (min (videoX termX s) (int (captureWidth s) - 1))"

definition clampedY :: "nat \<Rightarrow> viewer \<Rightarrow> int" where
  "clampedY termY s = max 0 (min (videoY termY s) (int (captureHeight s) - 1))"

definition pixelIdx :: "nat \<Rightarrow> nat \<Rightarrow> viewer \<Rightarrow> int" where
  "pixelIdx termX termY s = (clampedY termY s * int (captureWidth s) + clampedX termX s) * 3"

text \<open>A byte of the buffer read as a number; used only below the length check.\<close>

definition byteAt :: "byte list \<Rightarrow> int \<Rightarrow> rat" where
  "byteAt buf i = of_nat (unat (buf ! nat i))"

text \<open>
  One round of the two nested iterations over \<open>dy\<close> and \<open>dx\<close> that average the neighbourhood at
  zoom above 3: the accumulator holds \<open>r\<close>, \<open>g\<close>, \<open>b\<close> and \<open>count\<close>.
\<close>

definition averageStep :: "viewer \<Rightarrow> int \<Rightarrow> int \<Rightarrow> int \<times> int \<Rightarrow> rat \<times> rat \<times> rat \<times> nat
    \<Rightarrow> rat \<times> rat \<times> rat \<times> nat" where
  "averageStep s x y d acc =
     (case (d, acc) of ((dy, dx), (ar, ag, ab, count)) \<Rightarrow>
        let sx = max 0 (min (x + dx) (int (captureWidth s) - 1));
            sy = max 0 (min (y + dy) (int (captureHeight s) - 1));
            sidx = (sy * int (captureWidth s) + sx) * 3
        in if sidx + 2 < int (length (videoBuffer s))
           then (ar + byteAt (videoBuffer s) sidx, ag + byteAt (videoBuffer s) (sidx + 1),
                 ab + byteAt (videoBuffer s) (sidx + 2), count + 1)
           else acc)"

definition neighbourhood :: "(int \<times> int) list" where
  "neighbourhood = concat (map (\<lambda>dy. map (\<lambda>dx. (dy, dx)) [- 1, 0, 1]) [- 1, 0, 1])"

definition sampleVideoPixel :: "nat \<Rightarrow> nat \<Rightarrow> viewer \<Rightarrow> rat rgb" where
  "sampleVideoPixel termX termY s =
     (let x = clampedX termX s;
          y = clampedY termY s;
          idx = pixelIdx termX termY s;
          normal = \<lparr>r = byteAt (videoBuffer s) idx, g = byteAt (videoBuffer s) (idx + 1),
                    b = byteAt (videoBuffer s) (idx + 2)\<rparr>
      in if idx + 2 < int (length (videoBuffer s)) then
           (if zoomLevel s > 3 then
              (case fold (averageStep s x y) neighbourhood (0, 0, 0, 0) of
                 (ar, ag, ab, count) \<Rightarrow>
                   if count > 0
                   then \<lparr>r = ar / of_nat count, g = ag / of_nat count, b = ab / of_nat count\<rparr>
                   else normal)
            else normal)
         else \<lparr>r = 0, g = 0, b = 0\<rparr>)"

section \<open>WebcamViewer (quadrant variant): getPixel\<close>

text \<open>
  The quadrant variant keeps an RGBA buffer of \<open>videoWidth * videoHeight * 4\<close> bytes. Its
  \<^verbatim>\<open>getPixel\<close> reads the fields \<^verbatim>\<open>videoWidth\<close>, \<^verbatim>\<open>videoHeight\<close> and
  \<^verbatim>\<open>videoBuffer\<close> of the object, which are the first three arguments here. Reading a
  typed array past its end yields \<^verbatim>\<open>undefined\<close>, which is \<open>None\<close>.
\<close>

definition typedArrayGet :: "byte list \<Rightarrow> nat \<Rightarrow> nat option" where
  "typedArrayGet buf i = (if i < length buf then Some (unat (buf ! i)) else None)"

definition getPixel :: "nat \<Rightarrow> nat \<Rightarrow> byte list \<Rightarrow> nat \<Rightarrow> nat \<Rightarrow> nat option rgb" where
  "getPixel videoWidth videoHeight buf x y =
     (if x \<ge> videoWidth \<or> y \<ge> videoHeight then \<lparr>r = Some 0, g = Some 0, b = Some 0\<rparr>
      else
        let idx = (y * videoWidth + x) * 4
        in \<lparr>r = typedArrayGet buf idx, g = typedArrayGet buf (idx + 1),
            b = typedArrayGet buf (idx + 2)\<rparr>)"

text \<open>
  A viewer small enough to evaluate the sampler on: a 4 x 4 terminal, a 4 x 2 capture
  whose 24 buffer bytes are 0, 1, ..., 23, zoom 2, centred.
\<close>

definition smallViewer :: viewer where
  "smallViewer = \<lparr>termWidth = 4, termHeight = 4, captureWidth = 4, captureHeight = 2,
     videoBuffer = [0, 1, 2, 3, 4, 5, 6, 7, 8, 9, 10, 11, 12, 13, 14, 15, 16, 17, 18, 19, 20,
       21, 22, 23],
     bufferPos = 0, frameCount = 0, isRestarting = False, restartTimer = None, ffmpeg = True,
     pendingZoomLevel = 2, zoomLevel = 2, panX = 1 / 2, panY = 1 / 2, now = 0, frames = [],
     spawns = []\<rparr>"

section \<open>Double precision arithmetic\<close>

text \<open>
  The glyph encoders compare luminances that JavaScript computes in IEEE 754 double
  precision, and the outcome of a comparison can hinge on the last bit. Their arithmetic is
  therefore modelled with the rounding of doubles: a double is the rational it denotes, and
  every sum, product and quotient is rounded to the nearest double, ties to the even
  significand. \<open>toDouble x\<close> is that rounding: with \<open>e\<close> the binary exponent of \<open>\<bar>x\<bar>\<close>
  (not below \<open>-1022\<close>, where the subnormal numbers begin), the doubles near \<open>x\<close> are the
  multiples of \<open>ulp \<bar>x\<bar> = 2 ^ (e - 52)\<close>, and \<open>x\<close> is rounded to the nearest of them.
  Comparisons, \<^verbatim>\<open>Math.floor\<close>, \<^verbatim>\<open>Math.round\<close>, \<^verbatim>\<open>Math.min\<close> and
  \<^verbatim>\<open>Math.max\<close> are exact on doubles and need no rounding. Numbers beyond the largest
  double, where JavaScript yields Infinity, and divisions by zero are outside the model; the
  encoders divide by 255, by 4 and by a positive count, and no value below comes near the
  largest double.
\<close>

definition pow2 :: "int \<Rightarrow> rat" where
  "pow2 e = (if 0 \<le> e then 2 ^ nat e else 1 / 2 ^ nat (- e))"

text \<open>
  The binary exponent of a positive number, found by halving or doubling it into the
  interval from 1 to 2; the first argument bounds the number of steps. The 1100 steps that
  \<open>doubleExponent\<close> allows reach every number from \<open>2 ^ -1100\<close>, far below the least
  positive double \<open>2 ^ -1074\<close>, to \<open>2 ^ 1101\<close>, beyond the largest one.
\<close>

fun binaryExponent :: "nat \<Rightarrow> rat \<Rightarrow> int" where
  "binaryExponent 0 x = 0"
| "binaryExponent (Suc k) x =
     (if 2 \<le> x then binaryExponent k (x / 2) + 1
      else if x < 1 then binaryExponent k (x * 2) - 1
      else 0)"

definition roundHalfEven :: "rat \<Rightarrow> int" where
  "roundHalfEven q =
     (let f = \<lfloor>q\<rfloor>; d = q - of_int f
      in if d < 1 / 2 then f else if 1 / 2 < d then f + 1 else if even f then f else f + 1)"

definition doubleExponent :: "rat \<Rightarrow> int" where
  "doubleExponent a = max (- 1022) (binaryExponent 1100 a)"

definition ulp :: "rat \<Rightarrow> rat" where
  "ulp a = pow2 (doubleExponent a - 52)"

definition toDouble :: "rat \<Rightarrow> rat" where
  "toDouble x =
     (if x = 0 then 0
      else
        let a = \<bar>x\<bar>;
            n = roundHalfEven (a / ulp a)
        in if x < 0 then - (of_int n * ulp a) else of_int n * ulp a)"

text \<open>The operators \<open>+\<close>, \<open>*\<close> and \<open>/\<close> of JavaScript on doubles.\<close>

definition addD :: "rat \<Rightarrow> rat \<Rightarrow> rat" where
  "addD x y = toDouble (x + y)"

definition mulD :: "rat \<Rightarrow> rat \<Rightarrow> rat" where
  "mulD x y = toDouble (x * y)"

definition divD :: "rat \<Rightarrow> rat \<Rightarrow> rat" where
  "divD x y = toDouble (x / y)"

text \<open>The literals \<^verbatim>\<open>0.299\<close>, \<^verbatim>\<open>0.587\<close> and \<^verbatim>\<open>0.114\<close>: the doubles nearest to them.\<close>

definition lit0299 :: rat where
  "lit0299 = toDouble (299 / 1000)"

definition lit0587 :: rat where
  "lit0587 = toDouble (587 / 1000)"

definition lit0114 :: rat where
  "lit0114 = toDouble (114 / 1000)"

section \<open>Strings\<close>

text \<open>
  A JavaScript string is a sequence of UTF-16 code units, here natural numbers; indexing a
  string yields the one-unit string at that position, or \<^verbatim>\<open>undefined\<close> (\<open>None\<close>)
  outside it. \<open>str\<close> turns an ASCII literal into such a string.
\<close>

type_synonym jsstring = "nat list"

definition str :: "string \<Rightarrow> jsstring" where
  "str cs = map of_char cs"

definition stringIndex :: "jsstring \<Rightarrow> int \<Rightarrow> jsstring option" where
  "stringIndex s i = (if 0 \<le> i \<and> i < int (length s) then Some [s ! nat i] else None)"

section \<open>WebcamViewer (dynamic resolution variant): brightness ramps\<close>

datatype displayMode = Blocks | Shades | Ascii | Braille | Dots | Pixels

definition blockChars :: jsstring where
  "blockChars = [0x20, 0x2581, 0x2582, 0x2583, 0x2584, 0x2585, 0x2586, 0x2587, 0x2588]"

definition shadeChars :: jsstring where
  "shadeChars = [0x20, 0x2591, 0x2592, 0x2593, 0x2588]"

definition asciiChars :: jsstring where
  "asciiChars = str '' .,:;ox%#@''"

definition brailleChars :: jsstring where
  "brailleChars = [0x20, 0x2840, 0x2844, 0x2846, 0x2847, 0x28C7, 0x28E7, 0x28F7, 0x28FF]"

definition dotChars :: jsstring where
  "dotChars = [0x20, 0xB7, 0x2219, 0x25CF, 0x25CB, 0x25D0, 0x25D1, 0x25D2, 0x25D3, 0x25D4,
     0x25D5, 0x25D6, 0x25D7, 0x25CC, 0x25CD, 0x25CE, 0x25C9]"

definition pixelChar :: jsstring where
  "pixelChar = [0x2588]"

definition getCharForBrightness :: "displayMode \<Rightarrow> rat \<Rightarrow> jsstring option" where
  "getCharForBrightness mode brightness =
     (let normalizedBrightness = min 1 (max 0 (divD brightness 255))
      in case mode of
           Blocks \<Rightarrow>
             (let blockIdx = \<lfloor>mulD normalizedBrightness (of_int (int (length blockChars) - 1))\<rfloor>
              in stringIndex blockChars blockIdx)
         | Shades \<Rightarrow>
             (let shadeIdx = \<lfloor>mulD normalizedBrightness (of_int (int (length shadeChars) - 1))\<rfloor>
              in stringIndex shadeChars shadeIdx)
         | Ascii \<Rightarrow>
             (let asciiIdx = \<lfloor>mulD normalizedBrightness (of_int (int (length asciiChars) - 1))\<rfloor>
              in stringIndex asciiChars asciiIdx)
         | Braille \<Rightarrow>
             (let brailleIdx = \<lfloor>mulD normalizedBrightness (of_int (int (length brailleChars) - 1))\<rfloor>
              in stringIndex brailleChars brailleIdx)
         | Dots \<Rightarrow>
             (let dotIdx = \<lfloor>mulD normalizedBrightness (of_int (int (length dotChars) - 1))\<rfloor>
              in stringIndex dotChars dotIdx)
         | Pixels \<Rightarrow> Some pixelChar)"

text \<open>
  \<^verbatim>\<open>toHex\<close> of \<^verbatim>\<open>renderFrame\<close>:
  \<^verbatim>\<open>Math.round(Math.max(0, Math.min(255, n))).toString(16).padStart(2, '0')\<close>.
\<close>

definition hexDigit :: "nat \<Rightarrow> nat" where
  "hexDigit d = str ''0123456789abcdef'' ! d"

function toString16 :: "nat \<Rightarrow> jsstring" where
  "toString16 n = (if n < 16 then [hexDigit n] else toString16 (n div 16) @ [hexDigit (n mod 16)])"
  by pat_completeness auto
termination
  by (relation "measure id") auto

declare toString16.simps [simp del]

definition padStart2 :: "jsstring \<Rightarrow> jsstring" where
  "padStart2 s = replicate (2 - length s) (of_char CHR ''0'') @ s"

definition toHex :: "rat \<Rightarrow> jsstring" where
  "toHex n = padStart2 (toString16 (nat (jsRound (max 0 (min 255 n)))))"

text \<open>
  The body of the two nested iterations of \<^verbatim>\<open>renderFrame\<close> for one cell, given the sample: the
  values it assigns to \<^verbatim>\<open>textEl.content\<close>, \<^verbatim>\<open>textEl.fg\<close> and \<^verbatim>\<open>textEl.bg\<close>.
\<close>

definition renderFrameCell :: "displayMode \<Rightarrow> rat rgb \<Rightarrow> jsstring option \<times> jsstring \<times> jsstring" where
  "renderFrameCell mode p =
     (let brightness = addD (addD (mulD (r p) lit0299) (mulD (g p) lit0587)) (mulD (b p) lit0114);
          char = getCharForBrightness mode brightness;
          color = str ''#'' @ toHex (r p) @ toHex (g p) @ toHex (b p)
      in if mode = Pixels then (char, color, color)
         else if mode = Blocks \<or> mode = Shades then (char, color, str ''#000000'')
         else (char, color, str ''#000000''))"

text \<open>
  The ramp that each ramp mode indexes, and the index as the specification words it:
  the floor of the normalised brightness times the ramp length less one, in the arithmetic
  of doubles.
\<close>

fun rampOf :: "displayMode \<Rightarrow> jsstring" where
  "rampOf Blocks = blockChars"
| "rampOf Shades = shadeChars"
| "rampOf Ascii = asciiChars"
| "rampOf Braille = brailleChars"
| "rampOf Dots = dotChars"
| "rampOf Pixels = pixelChar"

definition rampIndex :: "displayMode \<Rightarrow> rat \<Rightarrow> int" where
  "rampIndex mode brightness =
     \<lfloor>mulD (min 1 (max 0 (divD brightness 255))) (of_int (int (length (rampOf mode)) - 1))\<rfloor>"

section \<open>WebcamViewer (quadrant variant): renderQuadrant\<close>

definition quadrantChars :: "jsstring list" where
  "quadrantChars =
     [str '' '', [0x2597], [0x2596], [0x2584], [0x259D], [0x2590], [0x259E], [0x259F],
      [0x2598], [0x259A], [0x258C], [0x2599], [0x2580], [0x259C], [0x259B], [0x2588]]"

text \<open>
  The accumulators \<^verbatim>\<open>darkColor\<close> and \<^verbatim>\<open>lightColor\<close> are objects with the fields
  \<open>r\<close>, \<open>g\<close>, \<open>b\<close> and \<^verbatim>\<open>count\<close>: a colour paired with a count. \<open>accumulate\<close> is the
  callback of \<^verbatim>\<open>pixels.forEach\<close>, applied to a sub-sample and its \<^verbatim>\<open>isDark\<close> flag;
  \<open>addColor\<close> is the four statements of either branch.
\<close>

definition addColor :: "rat rgb \<Rightarrow> rat rgb \<times> nat \<Rightarrow> rat rgb \<times> nat" where
  "addColor p acc =
     (case acc of (c, count) \<Rightarrow>
        (\<lparr>r = addD (r c) (r p), g = addD (g c) (g p), b = addD (b c) (b p)\<rparr>, count + 1))"

definition accumulate :: "rat rgb \<times> bool \<Rightarrow> (rat rgb \<times> nat) \<times> (rat rgb \<times> nat)
    \<Rightarrow> (rat rgb \<times> nat) \<times> (rat rgb \<times> nat)" where
  "accumulate pd acc =
     (case (pd, acc) of ((p, dark), (darkColor, lightColor)) \<Rightarrow>
        if dark then (addColor p darkColor, lightColor) else (darkColor, addColor p lightColor))"

text \<open>
  \<^verbatim>\<open>renderQuadrant\<close> is called with the four sub-samples of a cell in the order top-left,
  top-right, bottom-left, bottom-right. \<^verbatim>\<open>luminances.reduce((a, b) => a + b)\<close> has no
  initial value, so it starts from the first element. The result object \<open>{char, fg, bg}\<close> is
  the triple of the glyph and the two colours handed to \<^verbatim>\<open>RGBA.fromRGB\<close>.
\<close>

definition renderQuadrant :: "rat rgb list \<Rightarrow> jsstring \<times> rat rgb \<times> rat rgb" where
  "renderQuadrant pixels =
     (let luminances = map (\<lambda>p.
              addD (addD (mulD lit0299 (r p)) (mulD lit0587 (g p))) (mulD lit0114 (b p))) pixels;
          avgLum = divD (foldl addD (hd luminances) (tl luminances)) 4;
          isDark = map (\<lambda>l. l < avgLum) luminances;
          bits = (if isDark ! 0 then 8 else 0) + (if isDark ! 1 then 4 else 0)
               + (if isDark ! 2 then 2 else 0) + (if isDark ! 3 then (1::nat) else 0);
          char = quadrantChars ! bits;
          (darkColor, lightColor) =
            fold accumulate (zip pixels isDark)
              ((\<lparr>r = 0, g = 0, b = 0\<rparr>, 0), (\<lparr>r = 0, g = 0, b = 0\<rparr>, 0));
          darkColor1 =
            (case darkColor of (c, count) \<Rightarrow>
               if count > 0
               then (\<lparr>r = of_int (jsRound (divD (r c) (of_nat count))),
                      g = of_int (jsRound (divD (g c) (of_nat count))),
                      b = of_int (jsRound (divD (b c) (of_nat count)))\<rparr>, count)
               else (c, count));
          lightColor1 =
            (case lightColor of (c, count) \<Rightarrow>
               if count > 0
               then (\<lparr>r = of_int (jsRound (divD (r c) (of_nat count))),
                      g = of_int (jsRound (divD (g c) (of_nat count))),
                      b = of_int (jsRound (divD (b c) (of_nat count)))\<rparr>, count)
               else (\<lparr>r = 255, g = 255, b = 255\<rparr>, 1))
      in (char, fst darkColor1, fst lightColor1))"

text \<open>
  The quadrant encoder as the specification words it, for the four sub-samples of a cell,
  in the arithmetic of doubles: the luminance of each, their mean, the partition into dark
  (strictly below the mean) and light, the colour of a partition (each channel the mean over
  the partition, rounded to the nearest integer, or a fallback colour when the partition is
  empty), and the four-bit mask with the top-left bit first.
\<close>

definition luminance :: "rat rgb \<Rightarrow> rat" where
  "luminance p = addD (addD (mulD lit0299 (r p)) (mulD lit0587 (g p))) (mulD lit0114 (b p))"

definition sumD :: "rat list \<Rightarrow> rat" where
  "sumD xs = foldl addD 0 xs"

definition meanLuminance :: "rat rgb \<Rightarrow> rat rgb \<Rightarrow> rat rgb \<Rightarrow> rat rgb \<Rightarrow> rat" where
  "meanLuminance p1 p2 p3 p4 =
     divD (addD (addD (addD (luminance p1) (luminance p2)) (luminance p3)) (luminance p4)) 4"

definition partitionColor :: "rat rgb list \<Rightarrow> rat rgb \<Rightarrow> rat rgb" where
  "partitionColor ps fallback =
     (if ps = [] then fallback
      else \<lparr>r = of_int (jsRound (divD (sumD (map r ps)) (of_nat (length ps)))),
            g = of_int (jsRound (divD (sumD (map g ps)) (of_nat (length ps)))),
            b = of_int (jsRound (divD (sumD (map b ps)) (of_nat (length ps))))\<rparr>)"

definition quadrantMask :: "bool \<Rightarrow> bool \<Rightarrow> bool \<Rightarrow> bool \<Rightarrow> nat" where
  "quadrantMask d1 d2 d3 d4 =
     (if d1 then 8 else 0) + (if d2 then 4 else 0) + (if d3 then 2 else 0) + (if d4 then 1 else 0)"

definition quadrantSpec :: "rat rgb \<Rightarrow> rat rgb \<Rightarrow> rat rgb \<Rightarrow> rat rgb
    \<Rightarrow> jsstring \<times> rat rgb \<times> rat rgb" where
  "quadrantSpec topLeft topRight bottomLeft bottomRight =
     (let ps = [topLeft, topRight, bottomLeft, bottomRight];
          m = meanLuminance topLeft topRight bottomLeft bottomRight;
          dark = (\<lambda>p. luminance p < m)
      in (quadrantChars ! quadrantMask (dark topLeft) (dark topRight) (dark bottomLeft) (dark bottomRight),
          partitionColor (filter dark ps) \<lparr>r = 0, g = 0, b = 0\<rparr>,
          partitionColor (filter (\<lambda>p. \<not> dark p) ps) \<lparr>r = 255, g = 255, b = 255\<rparr>))"

text \<open>
  The mean colour of four sub-samples, each channel summed from 0 and divided by 4: the
  colour whose luminance \<^verbatim>\<open>renderFallback\<close> compares with.
\<close>

definition meanColor :: "rat rgb \<Rightarrow> rat rgb \<Rightarrow> rat rgb \<Rightarrow> rat rgb \<Rightarrow> rat rgb" where
  "meanColor p1 p2 p3 p4 =
     \<lparr>r = divD (sumD [r p1, r p2, r p3, r p4]) 4,
      g = divD (sumD [g p1, g p2, g p3, g p4]) 4,
      b = divD (sumD [b p1, b p2, b p3, b p4]) 4\<rparr>"

section \<open>WebcamViewer (supersample variant): renderFallback\<close>

text \<open>
  \<^verbatim>\<open>Array.prototype.indexOf\<close>: the first position of a value, or \<open>-1\<close>.
\<close>

definition indexOf :: "'a list \<Rightarrow> 'a \<Rightarrow> int" where
  "indexOf xs v = (if v \<in> set xs then int (length (takeWhile (\<lambda>x. x \<noteq> v) xs)) else - 1)"

text \<open>
  The body of the two nested iterations of \<^verbatim>\<open>renderFallback\<close> for one cell, given its four
  sub-samples in the order top-left, top-right, bottom-left, bottom-right: the glyph and the
  two colours passed to \<^verbatim>\<open>buffer.setCell\<close>. Its local table of glyphs holds the same
  sixteen characters as \<open>quadrantChars\<close>. \<^verbatim>\<open>Math.min(...luminances)\<close> and
  \<^verbatim>\<open>Math.max(...luminances)\<close> are folds over the four values.
\<close>

definition renderFallbackCell :: "rat rgb list \<Rightarrow> jsstring \<times> rat rgb \<times> rat rgb" where
  "renderFallbackCell pixels =
     (let avgColor = \<lparr>r = divD (foldl (\<lambda>sum p. addD sum (r p)) 0 pixels) 4,
                      g = divD (foldl (\<lambda>sum p. addD sum (g p)) 0 pixels) 4,
                      b = divD (foldl (\<lambda>sum p. addD sum (b p)) 0 pixels) 4\<rparr>;
          luminances = map (\<lambda>p.
              addD (addD (mulD lit0299 (r p)) (mulD lit0587 (g p))) (mulD lit0114 (b p))) pixels;
          darkIdx = indexOf luminances (foldl min (hd luminances) (tl luminances));
          lightIdx = indexOf luminances (foldl max (hd luminances) (tl luminances));
          darkColor = pixels ! nat darkIdx;
          lightColor = pixels ! nat lightIdx;
          quadrants = map (\<lambda>p.
              let lum = addD (addD (mulD lit0299 (r p)) (mulD lit0587 (g p))) (mulD lit0114 (b p));
                  avgLum = addD (addD (mulD lit0299 (r avgColor)) (mulD lit0587 (g avgColor)))
                             (mulD lit0114 (b avgColor))
              in lum < avgLum) pixels;
          bits = (if quadrants ! 0 then 8 else 0) + (if quadrants ! 1 then 4 else 0)
               + (if quadrants ! 2 then 2 else 0) + (if quadrants ! 3 then (1::nat) else 0);
          char = quadrantChars ! bits
      in (char, darkColor, lightColor))"

section \<open>SimpleCliRenderer: the render loop\<close>

text \<open>
  \<^verbatim>\<open>TextRenderable\<close>. The fields \<^verbatim>\<open>id\<close>, \<^verbatim>\<open>x\<close> and \<^verbatim>\<open>y\<close> are named
  \<open>ident\<close>, \<open>xPos\<close> and \<open>yPos\<close> here. The optional colours \<^verbatim>\<open>fg\<close> and \<^verbatim>\<open>bg\<close>
  are \<open>None\<close> when \<^verbatim>\<open>undefined\<close>.
\<close>

record TextRenderable =
  ident :: jsstring
  content :: jsstring
  xPos :: int
  yPos :: int
  fg :: "jsstring option"
  bg :: "jsstring option"
  zIndex :: int

text \<open>
  The renderer: \<open>renderables\<close> holds the values of the map of renderables in insertion
  order (the keys are their \<open>ident\<close>), \<open>lastRenderState\<close> is the map from an id to the
  state hash last written, and \<open>writes\<close> lists the arguments of the calls of
  \<^verbatim>\<open>stdout.write\<close> made so far.
\<close>

record renderer =
  renderables :: "TextRenderable list"
  running :: bool
  lastRenderState :: "jsstring \<Rightarrow> jsstring option"
  writes :: "jsstring list"

text \<open>Numbers and optional strings inside a template literal.\<close>

function showNat :: "nat \<Rightarrow> jsstring" where
  "showNat n = (if n < 10 then [of_char CHR ''0'' + n]
                else showNat (n div 10) @ [of_char CHR ''0'' + n mod 10])"
  by pat_completeness auto
termination
  by (relation "measure id") auto

declare showNat.simps [simp del]

definition showInt :: "int \<Rightarrow> jsstring" where
  "showInt i = (if i < 0 then str ''-'' @ showNat (nat (- i)) else showNat (nat i))"

definition showOpt :: "jsstring option \<Rightarrow> jsstring" where
  "showOpt c = (case c of None \<Rightarrow> str ''undefined'' | Some s \<Rightarrow> s)"

text \<open>A string is truthy when it is defined and not empty.\<close>

definition truthy :: "jsstring option \<Rightarrow> bool" where
  "truthy c = (c \<noteq> None \<and> c \<noteq> Some [])"

definition stateHash :: "TextRenderable \<Rightarrow> jsstring" where
  "stateHash t = content t @ str ''|'' @ showOpt (fg t) @ str ''|'' @ showOpt (bg t)
     @ str ''|'' @ showInt (xPos t) @ str ''|'' @ showInt (yPos t)"

text \<open>
  \<^verbatim>\<open>hexToRgb\<close>: the regular expression
  \<^verbatim>\<open>/^#?([a-f\d]{2})([a-f\d]{2})([a-f\d]{2})$/i\<close> accepts an optional \<open>#\<close> followed by
  exactly six hexadecimal digits of either case, and \<^verbatim>\<open>parseInt(.., 16)\<close> reads each pair.
\<close>

definition hexValue :: "nat \<Rightarrow> nat option" where
  "hexValue c =
     (if of_char CHR ''0'' \<le> c \<and> c \<le> of_char CHR ''9'' then Some (c - of_char CHR ''0'')
      else if of_char CHR ''a'' \<le> c \<and> c \<le> of_char CHR ''f'' then Some (c - of_char CHR ''a'' + 10)
      else if of_char CHR ''A'' \<le> c \<and> c \<le> of_char CHR ''F'' then Some (c - of_char CHR ''A'' + 10)
      else None)"

definition hexToRgb :: "jsstring \<Rightarrow> (nat \<times> nat \<times> nat) option" where
  "hexToRgb hex =
     (let digits = (if hex \<noteq> [] \<and> hd hex = of_char CHR ''#'' then tl hex else hex)
      in if length digits = 6 \<and> list_all (\<lambda>c. hexValue c \<noteq> None) digits
         then Some (the (hexValue (digits ! 0)) * 16 + the (hexValue (digits ! 1)),
                    the (hexValue (digits ! 2)) * 16 + the (hexValue (digits ! 3)),
                    the (hexValue (digits ! 4)) * 16 + the (hexValue (digits ! 5)))
         else None)"

definition esc :: jsstring where
  "esc = [0x1b]"

definition cursorTo :: "TextRenderable \<Rightarrow> jsstring" where
  "cursorTo t = esc @ str ''['' @ showInt (yPos t + 1) @ str '';'' @ showInt (xPos t + 1) @ str ''H''"

definition colorCode :: "TextRenderable \<Rightarrow> jsstring" where
  "colorCode t =
     (if truthy (fg t) then
        (case hexToRgb (the (fg t)) of
           Some (cr, cg, cb) \<Rightarrow>
             esc @ str ''[38;2;'' @ showNat cr @ str '';'' @ showNat cg @ str '';'' @ showNat cb
               @ str ''m''
         | None \<Rightarrow> [])
      else [])
     @ (if truthy (bg t) then
          (case hexToRgb (the (bg t)) of
             Some (cr, cg, cb) \<Rightarrow>
               esc @ str ''[48;2;'' @ showNat cr @ str '';'' @ showNat cg @ str '';'' @ showNat cb
                 @ str ''m''
           | None \<Rightarrow> [])
        else [])"

text \<open>
  The calls of \<^verbatim>\<open>stdout.write\<close> for one renderable whose state has changed, in order:
  the cursor position; for an overlay (\<open>zIndex\<close> at least 1000, with a background) the
  line-clear and the cursor position again; the colours, if any; the content; the reset
  of the colours, if any.
\<close>

definition cellWrites :: "TextRenderable \<Rightarrow> jsstring list" where
  "cellWrites t =
     [cursorTo t]
     @ (if zIndex t \<ge> 1000 \<and> truthy (bg t) then [esc @ str ''[K'', cursorTo t] else [])
     @ (if truthy (fg t) \<or> truthy (bg t) then [colorCode t] else [])
     @ [content t]
     @ (if truthy (fg t) \<or> truthy (bg t) then [esc @ str ''[0m''] else [])"

text \<open>The body of the loop over the sorted renderables.\<close>

definition renderOne :: "TextRenderable \<Rightarrow> renderer \<Rightarrow> renderer" where
  "renderOne t s =
     (let lastState = lastRenderState s (ident t)
      in if lastState \<noteq> Some (stateHash t)
         then s\<lparr>writes := writes s @ cellWrites t,
                 lastRenderState := (lastRenderState s)(ident t \<mapsto> stateHash t)\<rparr>
         else s)"

text \<open>
  One pass of \<^verbatim>\<open>renderLoop\<close>; the next pass is the next call, 33 ms later. The sort by
  \<open>zIndex\<close> is stable.
\<close>

definition renderLoop :: "renderer \<Rightarrow> renderer" where
  "renderLoop s =
     (if \<not> running s then s
      else fold renderOne (sort_key zIndex (renderables s)) s)"

text \<open>
  Changing the colours of the renderable with a given id, as an assignment to
  \<^verbatim>\<open>textEl.fg\<close> and \<^verbatim>\<open>textEl.bg\<close> does.
\<close>

definition setColors :: "jsstring \<Rightarrow> jsstring option \<Rightarrow> jsstring option \<Rightarrow> renderer \<Rightarrow> renderer" where
  "setColors k f g' s =
     s\<lparr>renderables := map (\<lambda>t. if ident t = k then t\<lparr>fg := f, bg := g'\<rparr> else t) (renderables s)\<rparr>"

text \<open>A colour is a hexadecimal colour string that \<^verbatim>\<open>hexToRgb\<close> accepts, or absent.\<close>

definition isColor :: "jsstring option \<Rightarrow> bool" where
  "isColor c = (case c of None \<Rightarrow> True | Some s \<Rightarrow> hexToRgb s \<noteq> None)"

text \<open>A grid of two cells and a status bar, before its first rendering.\<close>

definition demoRenderer :: renderer where
  "demoRenderer =
     \<lparr>renderables =
        [\<lparr>ident = str ''0-1'', content = [0x2588], xPos = 0, yPos = 1,
           fg = Some (str ''#ff0000''), bg = Some (str ''#000000''), zIndex = 1\<rparr>,
         \<lparr>ident = str ''1-1'', content = [0x2588], xPos = 1, yPos = 1,
           fg = Some (str ''#00ff00''), bg = Some (str ''#000000''), zIndex = 1\<rparr>,
         \<lparr>ident = str ''status'', content = str ''FPS: 0'', xPos = 2, yPos = 0,
           fg = Some (str ''#FFFFFF''), bg = Some (str ''#333333''), zIndex = 1000\<rparr>],
      running = True, lastRenderState = Map.empty, writes = []\<rparr>"

section \<open>Process exit\<close>

text \<open>
  What a handler does to the outside world, in order. \<open>ProcessExit c\<close> is
  \<^verbatim>\<open>process.exit(c)\<close>; nothing after it runs.
\<close>

datatype action = ConsoleLog | ConsoleError | FfmpegKill | RendererStop | ProcessExit int

fun exitCode :: "action list \<Rightarrow> int option" where
  "exitCode [] = None"
| "exitCode (ProcessExit c # _) = Some c"
| "exitCode (_ # acts) = exitCode acts"

text \<open>
  The dynamic resolution variant (\<^verbatim>\<open>webcam-dynamic-res.ts\<close>): \<^verbatim>\<open>cleanup\<close>, the
  \<^verbatim>\<open>'exit'\<close> handler of the capture subprocess, and the quit keys of \<^verbatim>\<open>setupKeyboard\<close>.
  The arguments are the fields the handlers read: whether a subprocess handle is stored,
  and \<^verbatim>\<open>isRestarting\<close>. An exit code of the subprocess is \<open>None\<close> when it was killed
  by a signal.
\<close>

definition cleanup :: "bool \<Rightarrow> action list" where
  "cleanup hasFfmpeg = (if hasFfmpeg then [FfmpegKill] else []) @ [RendererStop, ProcessExit 0]"

definition ffmpegOnExit :: "bool \<Rightarrow> bool \<Rightarrow> int option \<Rightarrow> action list" where
  "ffmpegOnExit restarting hasFfmpeg code = (if \<not> restarting then ConsoleLog # cleanup hasFfmpeg else [])"

definition quitKey :: "jsstring \<Rightarrow> bool" where
  "quitKey keyStr = (keyStr = str ''q'' \<or> keyStr = str ''Q'' \<or> keyStr = [0x03])"

definition keyboardOnData :: "bool \<Rightarrow> jsstring \<Rightarrow> action list" where
  "keyboardOnData hasFfmpeg keyStr = (if quitKey keyStr then cleanup hasFfmpeg else [])"

text \<open>
  The standalone script of \<^verbatim>\<open>part_005\<close>: the \<^verbatim>\<open>'error'\<close> and \<^verbatim>\<open>'exit'\<close> handlers
  of the capture subprocess in \<^verbatim>\<open>main\<close>.
\<close>

definition mainFfmpegOnError :: "action list" where
  "mainFfmpegOnError = [ConsoleError, RendererStop, ProcessExit 1]"

definition mainFfmpegOnExit :: "int option \<Rightarrow> action list" where
  "mainFfmpegOnExit code =
     (if code \<noteq> None \<and> code \<noteq> Some 0 then [ConsoleError] else []) @ [RendererStop, ProcessExit 0]"

section \<open>Frame assembly: correctness\<close>

lemma copyBytes_eq:
  "pos + n \<le> length buf \<Longrightarrow> offset + n \<le> length chunk \<Longrightarrow>
   copyBytes buf pos chunk offset n = take pos buf @ take n (drop offset chunk) @ drop (pos + n) buf"
proof (induction n)
  case 0
  then show ?case by (simp add: copyBytes_def)
next
  case (Suc n)
  then have IH: "copyBytes buf pos chunk offset n = take pos buf @ take n (drop offset chunk) @ drop (pos + n) buf"
    by simp
  have "copyBytes buf pos chunk offset (Suc n) = (copyBytes buf pos chunk offset n)[pos + n := chunk ! (offset + n)]"
    by (simp add: copyBytes_def)
  also have "\<dots> = take pos buf @ take n (drop offset chunk) @ (drop (pos + n) buf)[0 := chunk ! (offset + n)]"
    using Suc.prems by (simp add: IH list_update_append)
  also have "(drop (pos + n) buf)[0 := chunk ! (offset + n)] = chunk ! (offset + n) # drop (pos + Suc n) buf"
    using Suc.prems by (simp add: Cons_nth_drop_Suc[symmetric, of "pos + n" buf])
  also have "take n (drop offset chunk) @ chunk ! (offset + n) # drop (pos + Suc n) buf
           = take (Suc n) (drop offset chunk) @ drop (pos + Suc n) buf"
    using Suc.prems by (simp add: take_Suc_conv_app_nth)
  finally show ?case by simp
qed

lemma slices_short: "length xs < n \<Longrightarrow> slices n xs = []"
  by (simp add: slices_def)

lemma slices_step: 
  assumes "0 < n" "n \<le> length xs"
  shows "slices n xs = take n xs # slices n (drop n xs)"
proof -
  have d: "length xs div n = Suc ((length xs - n) div n)"
    using assms by (simp add: le_div_geq)
  have "slices n xs = map (\<lambda>i. take n (drop (i * n) xs)) (0 # map Suc [0..<(length xs - n) div n])"
    unfolding slices_def d by (simp only: map_Suc_upt upt_conv_Cons[of 0] zero_less_Suc if_True)
  also have "\<dots> = take n xs # slices n (drop n xs)"
    by (simp add: slices_def comp_def add.commute)
  finally show ?thesis .
qed




lemma slices_drop_full:
  assumes "0 < n" "n \<le> length xs"
  shows "drop (length (drop n xs) div n * n) (drop n xs) = drop (length xs div n * n) xs"
proof -
  have d: "length xs div n = Suc ((length xs - n) div n)"
    using assms by (simp add: le_div_geq)
  show ?thesis by (simp add: d add.commute)
qed

lemma processLoop_spec:
  assumes n: "0 < n"
  shows "length (videoBuffer s) = n \<Longrightarrow> bufferPos s < n \<Longrightarrow> offset \<le> length chunk \<Longrightarrow>
   data = take (bufferPos s) (videoBuffer s) @ drop offset chunk \<Longrightarrow>
   \<exists>B. length B = n \<and> take (length data mod n) B = drop (length data div n * n) data \<and>
       processLoop n chunk offset s =
         s\<lparr>videoBuffer := B, bufferPos := length data mod n,
           frameCount := frameCount s + length data div n,
           frames := frames s @ slices n data\<rparr>"
proof (induction "length chunk - offset" arbitrary: offset s data rule: less_induct)
  case less
  let ?p = "bufferPos s" and ?buf = "videoBuffer s"
  show ?case
  proof (cases "offset < length chunk")
    case False
    with less.prems have off: "offset = length chunk" by simp
    have r: "processLoop n chunk offset s = s"
      using False by (simp add: processLoop.simps)
    have d: "data = take ?p ?buf" "length data = ?p"
      using less.prems off by simp_all
    show ?thesis
      using less.prems by (intro exI[of _ ?buf]) (simp add: r d slices_short)
  next
    case True
    define t where "t = min (n - ?p) (length chunk - offset)"
    have t: "0 < t" "?p + t \<le> n" "offset + t \<le> length chunk"
      using True less.prems by (simp_all add: t_def)
    define buf' where "buf' = copyBytes ?buf ?p chunk offset t"
    have buf': "buf' = take ?p ?buf @ take t (drop offset chunk) @ drop (?p + t) ?buf"
      unfolding buf'_def using t less.prems by (intro copyBytes_eq) simp_all
    have lbuf': "length buf' = n"
      using t less.prems by (simp add: buf')
    show ?thesis
    proof (cases "n \<le> ?p + t")
      case full: True
      with t have pt: "?p + t = n" by simp
      define s3 where "s3 = s\<lparr>videoBuffer := buf', frames := frames s @ [buf'],
         bufferPos := 0, frameCount := frameCount s + 1\<rparr>"
      have step: "processLoop n chunk offset s = processLoop n chunk (offset + t) s3"
        using True less.prems full
        by (subst processLoop.simps)
           (simp add: Let_def renderFrame_def t_def[symmetric] buf'_def[symmetric] s3_def)
      have ldata: "n \<le> length data"
        using less.prems t pt by simp
      have tn: "n - ?p = t" using pt by simp
      have take_data: "take n data = buf'"
        using less.prems t pt by (simp add: buf' tn)
      have drop_data: "drop n data = drop (offset + t) chunk"
      proof -
        have "drop n data = drop (n - ?p) (drop offset chunk)"
          using less.prems by simp
        then show ?thesis by (simp only: tn drop_drop add.commute)
      qed
      have "\<exists>B. length B = n \<and>
          take (length (drop n data) mod n) B = drop (length (drop n data) div n * n) (drop n data) \<and>
          processLoop n chunk (offset + t) s3 =
            s3\<lparr>videoBuffer := B, bufferPos := length (drop n data) mod n,
               frameCount := frameCount s3 + length (drop n data) div n,
               frames := frames s3 @ slices n (drop n data)\<rparr>"
        using t lbuf' n by (intro less.hyps) (simp_all add: s3_def drop_data)
      then obtain B where B: "length B = n"
          "take (length (drop n data) mod n) B = drop (length (drop n data) div n * n) (drop n data)"
          "processLoop n chunk (offset + t) s3 =
            s3\<lparr>videoBuffer := B, bufferPos := length (drop n data) mod n,
               frameCount := frameCount s3 + length (drop n data) div n,
               frames := frames s3 @ slices n (drop n data)\<rparr>"
        by blast
      have m: "length (drop n data) mod n = length data mod n"
        using ldata by (simp add: le_mod_geq)
      have m': "(length data - n) mod n = length data mod n"
        using ldata by (simp add: le_mod_geq)
      have dv: "length data div n = Suc (length (drop n data) div n)"
        using ldata n by (simp add: le_div_geq)
      have "take (length data mod n) B = drop (length data div n * n) data"
        using B(2) slices_drop_full[OF n ldata] by (simp only: m)
      moreover have "processLoop n chunk offset s =
         s\<lparr>videoBuffer := B, bufferPos := length data mod n,
           frameCount := frameCount s + length data div n,
           frames := frames s @ slices n data\<rparr>"
        unfolding step B(3) 
        by (simp add: s3_def m' dv slices_step[OF n ldata] take_data)
      ultimately show ?thesis using B(1) by blast
    next
      case part: False
      then have pt: "?p + t < n" by simp
      with t have tt: "offset + t = length chunk" by (simp add: t_def split: if_splits)
      define s3 where "s3 = s\<lparr>videoBuffer := buf', bufferPos := ?p + t\<rparr>"
      have step: "processLoop n chunk offset s = processLoop n chunk (offset + t) s3"
        using True less.prems part
        by (subst processLoop.simps)
           (simp add: Let_def t_def[symmetric] buf'_def[symmetric] s3_def)
      have r: "processLoop n chunk (offset + t) s3 = s3"
        by (subst processLoop.simps) (simp add: tt)
      have d: "data = take (?p + t) buf'" "length data = ?p + t"
        using less.prems t tt pt by (simp_all add: buf')
      show ?thesis
        unfolding step r
        using pt lbuf' by (intro exI[of _ buf']) (simp add: s3_def d slices_short)
    qed
  qed
qed


lemma slices_split:
  assumes "0 < n" "q * n \<le> length zs"
  shows "slices n zs = map (\<lambda>i. take n (drop (i * n) zs)) [0..<q] @ slices n (drop (q * n) zs)"
proof -
  define m where "m = (length zs - q * n) div n"
  have d: "length zs div n = q + m"
  proof -
    have "(q * n + (length zs - q * n)) div n = q + (length zs - q * n) div n"
      using assms(1) by (intro div_mult_self3) simp
    moreover have "q * n + (length zs - q * n) = length zs"
      using assms(2) by simp
    ultimately show ?thesis by (simp only: m_def)
  qed
  have u: "[0..<q + m] = [0..<q] @ map (\<lambda>i. i + q) [0..<m]"
    using upt_add_eq_append[of 0 q m] map_add_upt[of q m] by (simp add: add.commute)
  have "slices n zs = map (\<lambda>i. take n (drop (i * n) zs)) [0..<q]
          @ map (\<lambda>i. take n (drop ((i + q) * n) zs)) [0..<m]"
    by (simp only: slices_def d u map_append map_map comp_def)
  moreover have "slices n (drop (q * n) zs) = map (\<lambda>i. take n (drop ((i + q) * n) zs)) [0..<m]"
    by (simp add: slices_def m_def add_mult_distrib add.commute)
  ultimately show ?thesis by simp
qed

lemma slices_prefix:
  "slices n xs = map (\<lambda>i. take n (drop (i * n) (xs @ ys))) [0..<length xs div n]"
proof (cases "n = 0")
  case True
  then show ?thesis by (simp add: slices_def)
next
  case False
  have "take n (drop (i * n) (xs @ ys)) = take n (drop (i * n) xs)" if "i < length xs div n" for i
  proof -
    from that have "Suc i \<le> length xs div n" by simp
    then have "Suc i * n \<le> length xs div n * n" by (rule mult_le_mono1)
    also have "\<dots> \<le> length xs" by simp
    finally have "i * n + n \<le> length xs" by simp
    then show ?thesis by simp
  qed
  then show ?thesis by (simp add: slices_def)
qed

lemma slices_append:
  assumes "0 < n"
  shows "slices n (xs @ ys) = slices n xs @ slices n (drop (length xs div n * n) xs @ ys)"
proof -
  have le: "length xs div n * n \<le> length xs" by simp
  then have "length xs div n * n \<le> length (xs @ ys)" by (simp add: trans_le_add1)
  from slices_split[OF assms this] le show ?thesis
    by (simp add: slices_prefix[of n xs ys])
qed

lemma rest_arith:
  fixes a b n :: nat
  assumes "0 < n"
  shows "(a mod n + b) mod n = (a + b) mod n" "a div n + (a mod n + b) div n = (a + b) div n"
proof -
  show "(a mod n + b) mod n = (a + b) mod n" by (simp add: mod_add_left_eq)
  have "(a div n * n + (a mod n + b)) div n = a div n + (a mod n + b) div n"
    using assms by (intro div_mult_self3) simp
  moreover have "a div n * n + (a mod n + b) = a + b"
    by (simp only: add.assoc[symmetric] div_mult_mod_eq)
  ultimately show "a div n + (a mod n + b) div n = (a + b) div n" by (simp only:)
qed

lemma processVideoData_spec:
  assumes "0 < n" "n = captureWidth s * captureHeight s * 3"
    "length (videoBuffer s) = n" "bufferPos s < n"
    "data = take (bufferPos s) (videoBuffer s) @ chunk"
  shows "\<exists>B. length B = n \<and> take (length data mod n) B = drop (length data div n * n) data \<and>
       processVideoData chunk s =
         s\<lparr>videoBuffer := B, bufferPos := length data mod n,
           frameCount := frameCount s + length data div n,
           frames := frames s @ slices n data\<rparr>"
  using processLoop_spec[OF assms(1) assms(3) assms(4), of 0 chunk data] assms(2,5)
  by (simp add: processVideoData_def)

lemma feed_spec:
  assumes n: "0 < n"
  shows "n = captureWidth s * captureHeight s * 3 \<Longrightarrow>
    length (videoBuffer s) = n \<Longrightarrow> bufferPos s < n \<Longrightarrow>
    data = take (bufferPos s) (videoBuffer s) @ concat chunks \<Longrightarrow>
    \<exists>B. length B = n \<and> take (length data mod n) B = drop (length data div n * n) data \<and>
       feed chunks s =
         s\<lparr>videoBuffer := B, bufferPos := length data mod n,
           frameCount := frameCount s + length data div n,
           frames := frames s @ slices n data\<rparr>"
proof (induction chunks arbitrary: s data)
  case Nil
  then show ?case
    by (intro exI[of _ "videoBuffer s"]) (simp add: slices_short)
next
  case (Cons chunk chunks)
  define d1 where "d1 = take (bufferPos s) (videoBuffer s) @ chunk"
  define s1 where "s1 = processVideoData chunk s"
  obtain B1 where B1: "length B1 = n" "take (length d1 mod n) B1 = drop (length d1 div n * n) d1"
     "s1 = s\<lparr>videoBuffer := B1, bufferPos := length d1 mod n,
           frameCount := frameCount s + length d1 div n,
           frames := frames s @ slices n d1\<rparr>"
    using processVideoData_spec[OF n Cons.prems(1,2,3) d1_def] unfolding s1_def by blast
  define d2 where "d2 = drop (length d1 div n * n) d1 @ concat chunks"
  have data: "data = d1 @ concat chunks" using Cons.prems by (simp add: d1_def)
  have "length (drop (length d1 div n * n) d1) = length d1 mod n"
    by (simp add: minus_div_mult_eq_mod)
  then have l2: "length d2 = length d1 mod n + length (concat chunks)"
    by (simp only: d2_def length_append)
  have "\<exists>B. length B = n \<and> take (length d2 mod n) B = drop (length d2 div n * n) d2 \<and>
       feed chunks s1 =
         s1\<lparr>videoBuffer := B, bufferPos := length d2 mod n,
           frameCount := frameCount s1 + length d2 div n,
           frames := frames s1 @ slices n d2\<rparr>"
    using Cons.prems n B1(1,2) by (intro Cons.IH) (simp_all add: B1(3) d2_def)
  then obtain B where B: "length B = n" "take (length d2 mod n) B = drop (length d2 div n * n) d2"
      "feed chunks s1 =
         s1\<lparr>videoBuffer := B, bufferPos := length d2 mod n,
           frameCount := frameCount s1 + length d2 div n,
           frames := frames s1 @ slices n d2\<rparr>"
    by blast
  have m: "length d2 mod n = length data mod n"
    by (simp add: l2 data rest_arith(1)[OF n])
  have dv: "length d1 div n + length d2 div n = length data div n"
    by (simp add: l2 data rest_arith(2)[OF n])
  have sl: "slices n data = slices n d1 @ slices n d2"
    unfolding data d2_def by (rule slices_append[OF n])
  have dr: "drop (length d2 div n * n) d2 = drop (length data div n * n) data"
  proof -
    have "drop (length data div n * n) data
        = drop (length d2 div n * n) (drop (length d1 div n * n) data)"
      by (simp add: dv[symmetric] add_mult_distrib add.commute)
    also have "drop (length d1 div n * n) data = d2"
      by (simp add: data d2_def)
    finally show ?thesis by simp
  qed
  have "feed (chunk # chunks) s = feed chunks s1" by (simp add: s1_def)
  also have "\<dots> = s\<lparr>videoBuffer := B, bufferPos := length data mod n,
           frameCount := frameCount s + length data div n,
           frames := frames s @ slices n data\<rparr>"
    unfolding B(3) by (simp add: B1(3) m dv[symmetric] sl add.assoc)
  finally show ?case using B(1,2) by (intro exI[of _ B]) (simp add: m dr)
qed

text \<open>
  Claim C1. Let the frame size \<open>captureWidth * captureHeight * 3\<close> be positive, the video
  buffer have that length and the assembler start at a frame boundary. If the chunks fed in
  order hold \<open>k\<close> frames' worth of bytes in total, however they are cut (one-byte chunks,
  chunks spanning frame boundaries, empty chunks), then \<^verbatim>\<open>renderFrame\<close> is called exactly
  \<open>k\<close> more times, the \<open>i\<close>-th call sees the \<open>i\<close>-th \<open>frameSize\<close>-long slice of the
  concatenated input, the frame counter has advanced by \<open>k\<close>, and the assembler is back at a
  frame boundary.
\<close>

theorem frame_reassembly:
  assumes "frameSize = captureWidth s * captureHeight s * 3" and "0 < frameSize"
    and "length (videoBuffer s) = frameSize" and "bufferPos s = 0"
    and "length (concat chunks) = k * frameSize"
  shows "frames (feed chunks s) =
           frames s @ map (\<lambda>i. take frameSize (drop (i * frameSize) (concat chunks))) [0..<k]
       \<and> frameCount (feed chunks s) = frameCount s + k
       \<and> bufferPos (feed chunks s) = 0"
proof -
  have "bufferPos s < frameSize" using assms by simp
  from feed_spec[OF assms(2) assms(1) assms(3) this, of "concat chunks" chunks] assms(4,5)
  show ?thesis using assms(2) by (auto simp: slices_def)
qed


theorem frame_reassembly_witness:
  "frames (feed [[1], [2, 3, 4, 5], [], [6]] tinyViewer) = [[1, 2, 3], [4, 5, 6]]
   \<and> frameCount (feed [[1], [2, 3, 4, 5], [], [6]] tinyViewer) = 2
   \<and> bufferPos (feed [[1], [2, 3, 4, 5], [], [6]] tinyViewer) = 0"
  using frame_reassembly[of 3 tinyViewer "[[1], [2, 3, 4, 5], [], [6]]" 2]
  by (simp add: tinyViewer_def upt_conv_Cons)

section \<open>Debounced restart and pan: correctness\<close>














text \<open>
  Claim C10. With zoom level at most 1, \<^verbatim>\<open>pan\<close> leaves the whole viewer unchanged. With
  zoom level above 1 it changes \<open>panX\<close> and \<open>panY\<close> only, both end up in the interval from
  0 to 1, and the zoom level is as before. The same holds of the \<^verbatim>\<open>pan\<close> of the dynamic
  resolution variant.
\<close>

theorem pan_frame:
  "(zoomLevel s \<le> 1 \<longrightarrow> pan dx dy s = s \<and> panDynamic dx dy s = s)
   \<and> (zoomLevel s > 1 \<longrightarrow>
        pan dx dy s = s\<lparr>panX := panX (pan dx dy s), panY := panY (pan dx dy s)\<rparr>
        \<and> 0 \<le> panX (pan dx dy s) \<and> panX (pan dx dy s) \<le> 1
        \<and> 0 \<le> panY (pan dx dy s) \<and> panY (pan dx dy s) \<le> 1
        \<and> zoomLevel (pan dx dy s) = zoomLevel s
        \<and> panDynamic dx dy s
            = s\<lparr>panX := panX (panDynamic dx dy s), panY := panY (panDynamic dx dy s)\<rparr>
        \<and> 0 \<le> panX (panDynamic dx dy s) \<and> panX (panDynamic dx dy s) \<le> 1
        \<and> 0 \<le> panY (panDynamic dx dy s) \<and> panY (panDynamic dx dy s) \<le> 1
        \<and> zoomLevel (panDynamic dx dy s) = zoomLevel s)"
  by (simp add: pan_def panDynamic_def Let_def)

theorem pan_frame_witness:
  "pan 1 0 settledViewer = settledViewer
   \<and> panDynamic 1 0 settledViewer = settledViewer
   \<and> 0 \<le> panX (pan 1 (- 1) (settledViewer\<lparr>zoomLevel := 2\<rparr>))
   \<and> panX (pan 1 (- 1) (settledViewer\<lparr>zoomLevel := 2\<rparr>)) \<le> 1
   \<and> zoomLevel (pan 1 (- 1) (settledViewer\<lparr>zoomLevel := 2\<rparr>)) = 2
   \<and> panY (panDynamic 1 (- 1) (settledViewer\<lparr>zoomLevel := 2\<rparr>)) \<le> 1"
  using pan_frame[of settledViewer 1 0] pan_frame[of "settledViewer\<lparr>zoomLevel := 2\<rparr>" 1 "- 1"]
  by (simp add: settledViewer_def)

section \<open>Sampling: correctness\<close>

lemma idx_bounds:
  fixes x y w h :: int
  assumes "0 \<le> x" "x \<le> w - 1" "0 \<le> y" "y \<le> h - 1"
  shows "0 \<le> (y * w + x) * 3" "(y * w + x) * 3 + 2 < w * h * 3"
proof -
  have w: "0 < w" using assms by linarith
  show "0 \<le> (y * w + x) * 3" using assms w by simp
  have "y * w \<le> (h - 1) * w" using assms w by (intro mult_right_mono) simp_all
  then have "y * w + x \<le> (h - 1) * w + (w - 1)" using assms by linarith
  also have "\<dots> = w * h - 1" by (simp add: algebra_simps)
  finally show "(y * w + x) * 3 + 2 < w * h * 3" by (simp add: algebra_simps)
qed

text \<open>
  Claim C3. Let the zoom level be at least 1, \<open>panX\<close> and \<open>panY\<close> lie between 0 and 1, the
  terminal have a positive width and a height other than 2 (so that the two divisions by the
  terminal size are defined), and the capture be at least one pixel wide and high. Then for
  every terminal cell the clamped source coordinates lie in the frame,
  \<open>0 \<le> x \<le> captureWidth - 1\<close> and \<open>0 \<le> y \<le> captureHeight - 1\<close>, the buffer index is not
  negative, and when the buffer holds a whole frame of \<open>captureWidth * captureHeight * 3\<close>
  bytes the three bytes read at \<open>idx\<close>, \<open>idx + 1\<close>, \<open>idx + 2\<close> are inside it.
\<close>

theorem clamped_in_frame:
  assumes "1 \<le> zoomLevel s" "0 \<le> panX s" "panX s \<le> 1" "0 \<le> panY s" "panY s \<le> 1"
    and "0 < termWidth s" "termHeight s \<noteq> 2"
    and "1 \<le> captureWidth s" "1 \<le> captureHeight s"
  shows "0 \<le> clampedX termX s \<and> clampedX termX s \<le> int (captureWidth s) - 1
       \<and> 0 \<le> clampedY termY s \<and> clampedY termY s \<le> int (captureHeight s) - 1
       \<and> 0 \<le> pixelIdx termX termY s
       \<and> (length (videoBuffer s) = captureWidth s * captureHeight s * 3 \<longrightarrow>
            pixelIdx termX termY s + 2 < int (length (videoBuffer s)))"
proof -
  have x: "0 \<le> clampedX termX s" "clampedX termX s \<le> int (captureWidth s) - 1"
    using assms(8) by (simp_all add: clampedX_def)
  have y: "0 \<le> clampedY termY s" "clampedY termY s \<le> int (captureHeight s) - 1"
    using assms(9) by (simp_all add: clampedY_def)
  from idx_bounds[OF x y] x y show ?thesis
    by (simp add: pixelIdx_def)
qed

text \<open>
  Before clamping the coordinate can lie outside the frame: for the row of the status bar
  (\<open>termY = 0\<close>, so \<open>adjustedY = -1\<close>) with the view panned to the top, \<open>videoY\<close> is negative.
\<close>

lemma videoY_below_frame:
  "videoY 0 (smallViewer\<lparr>panY := 0\<rparr>) = - 1"
  by code_simp

theorem clamped_in_frame_witness:
  "clampedX 3 smallViewer = 2 \<and> clampedY 2 smallViewer = 1 \<and> pixelIdx 3 2 smallViewer = 18
   \<and> pixelIdx 3 2 smallViewer + 2 < int (length (videoBuffer smallViewer))"
proof -
  have h: "1 \<le> zoomLevel smallViewer" "0 \<le> panX smallViewer" "panX smallViewer \<le> 1"
    "0 \<le> panY smallViewer" "panY smallViewer \<le> 1" "0 < termWidth smallViewer"
    "termHeight smallViewer \<noteq> 2" "1 \<le> captureWidth smallViewer"
    "1 \<le> captureHeight smallViewer"
    by (simp_all add: smallViewer_def)
  have v: "clampedX 3 smallViewer = 2" "clampedY 2 smallViewer = 1" "pixelIdx 3 2 smallViewer = 18"
    by code_simp+
  have l: "length (videoBuffer smallViewer) = captureWidth smallViewer * captureHeight smallViewer * 3"
    by (simp add: smallViewer_def)
  from clamped_in_frame[OF h, of 3 2] l v show ?thesis by simp
qed

text \<open>
  Claim C8. Whenever the buffer index computed for a cell does not satisfy
  \<open>idx + 2 < videoBuffer.length\<close>, \<^verbatim>\<open>sampleVideoPixel\<close> returns black and reads nothing;
  \<^verbatim>\<open>getPixel\<close> returns black for every \<open>x \<ge> videoWidth\<close> and every
  \<open>y \<ge> videoHeight\<close>. Both are total functions: the fallback is a value, not an error.
\<close>

theorem sampler_black_fallback:
  "(\<not> pixelIdx termX termY s + 2 < int (length (videoBuffer s)) \<longrightarrow>
      sampleVideoPixel termX termY s = \<lparr>r = 0, g = 0, b = 0\<rparr>)
   \<and> (x \<ge> videoWidth \<or> y \<ge> videoHeight \<longrightarrow>
      getPixel videoWidth videoHeight buf x y = \<lparr>r = Some 0, g = Some 0, b = Some 0\<rparr>)"
  by (simp add: sampleVideoPixel_def getPixel_def Let_def)

theorem sampler_black_fallback_witness:
  "sampleVideoPixel 3 2 (smallViewer\<lparr>videoBuffer := [7, 7]\<rparr>) = \<lparr>r = 0, g = 0, b = 0\<rparr>
   \<and> getPixel 4 2 [] 4 0 = \<lparr>r = Some 0, g = Some 0, b = Some 0\<rparr>"
proof -
  have i: "pixelIdx 3 2 (smallViewer\<lparr>videoBuffer := [7, 7]\<rparr>) = 18"
    by code_simp
  from sampler_black_fallback[where termX = 3 and termY = 2
      and s = "smallViewer\<lparr>videoBuffer := [7, 7]\<rparr>"
      and x = 4 and y = 0 and videoWidth = 4 and videoHeight = 2 and buf = "[]"]
  show ?thesis by (simp add: i)
qed

section \<open>Double precision arithmetic: bounds and exact cases\<close>

subsection \<open>Bounds kept by rounding\<close>

text \<open>
  Rounding a number between 0 and an integer below \<open>2 ^ 52\<close> stays between them: the
  integer is itself a multiple of the unit in the last place.
\<close>

lemma pow2_pos: "0 < pow2 e"
  by (simp add: pow2_def)

lemma binaryExponent_le:
  "x < 2 ^ m \<Longrightarrow> binaryExponent k x \<le> int m"
proof (induction k arbitrary: x m)
  case 0
  show ?case by simp
next
  case (Suc k)
  show ?case
  proof (cases "2 \<le> x")
    case True
    with Suc.prems have "m \<noteq> 0" by (cases m) auto
    then obtain j where m: "m = Suc j" by (cases m) auto
    from Suc.prems have "x / 2 < 2 ^ j" by (simp add: m)
    from Suc.IH[OF this] True show ?thesis by (simp add: m)
  next
    case False
    show ?thesis
    proof (cases "x < 1")
      case True
      then have "x * 2 < 2 ^ 1" by simp
      from Suc.IH[OF this] True False show ?thesis by simp
    next
      case F2: False
      with False show ?thesis by simp
    qed
  qed
qed

lemma roundHalfEven_nonneg: "0 \<le> q \<Longrightarrow> 0 \<le> roundHalfEven q"
  by (simp add: roundHalfEven_def Let_def)

lemma roundHalfEven_le:
  assumes "q \<le> of_int K"
  shows "roundHalfEven q \<le> K"
proof -
  have f: "\<lfloor>q\<rfloor> \<le> K" using assms by (simp add: floor_le_iff)
  show ?thesis
  proof (cases "q = of_int \<lfloor>q\<rfloor>")
    case True
    then have "q - of_int \<lfloor>q\<rfloor> = 0" by simp
    then show ?thesis using f by (simp add: roundHalfEven_def Let_def)
  next
    case False
    have "of_int \<lfloor>q\<rfloor> \<le> q" by (rule of_int_floor_le)
    moreover from False have "of_int \<lfloor>q\<rfloor> \<noteq> q" by (rule not_sym)
    ultimately have "of_int \<lfloor>q\<rfloor> < q" by (rule le_neq_trans)
    with assms have "(of_int \<lfloor>q\<rfloor> :: rat) < of_int K" by simp
    then have "\<lfloor>q\<rfloor> < K" by (simp only: of_int_less_iff)
    then show ?thesis by (simp add: roundHalfEven_def Let_def)
  qed
qed

lemma toDouble_nonneg:
  assumes "0 \<le> x"
  shows "0 \<le> toDouble x"
proof (cases "x = 0")
  case True
  then show ?thesis by (simp add: toDouble_def)
next
  case False
  with assms have x: "0 < x" by simp
  have u: "0 < ulp \<bar>x\<bar>" by (simp add: ulp_def pow2_pos)
  have "0 \<le> \<bar>x\<bar> / ulp \<bar>x\<bar>" using u by simp
  then have "0 \<le> roundHalfEven (\<bar>x\<bar> / ulp \<bar>x\<bar>)" by (rule roundHalfEven_nonneg)
  then have "0 \<le> of_int (roundHalfEven (\<bar>x\<bar> / ulp \<bar>x\<bar>)) * ulp \<bar>x\<bar>" using u by simp
  then show ?thesis using x by (simp add: toDouble_def Let_def)
qed

lemma toDouble_le_nat:
  assumes "0 \<le> x" "x \<le> of_nat N" "N < 2 ^ 52"
  shows "toDouble x \<le> of_nat N"
proof (cases "x = 0")
  case True
  then show ?thesis by (simp add: toDouble_def)
next
  case False
  with assms have x: "0 < x" by simp
  define e where "e = doubleExponent \<bar>x\<bar>"
  define u where "u = ulp \<bar>x\<bar>"
  have u: "0 < u" by (simp add: u_def ulp_def pow2_pos)
  have "\<bar>x\<bar> < 2 ^ 52"
  proof -
    have "(of_nat N :: rat) < of_nat (2 ^ 52)" using assms(3) by (simp only: of_nat_less_iff)
    then show ?thesis using assms(1,2) by simp
  qed
  then have "binaryExponent 1100 \<bar>x\<bar> \<le> 52" using binaryExponent_le[of "\<bar>x\<bar>" 52 1100] by simp
  then have e: "e \<le> 52" by (simp add: e_def doubleExponent_def)
  then have ulp: "u = 1 / 2 ^ nat (52 - e)" by (simp add: u_def ulp_def pow2_def e_def)
  define K where "K = int N * 2 ^ nat (52 - e)"
  have K: "of_int K * u = of_nat N" by (simp add: K_def ulp)
  have "\<bar>x\<bar> / u \<le> of_nat N / u" using assms u by (simp add: divide_right_mono)
  also have "of_nat N / u = of_int K" by (simp add: K_def ulp)
  finally have "roundHalfEven (\<bar>x\<bar> / u) \<le> K" by (rule roundHalfEven_le)
  then have "(of_int (roundHalfEven (\<bar>x\<bar> / u)) :: rat) \<le> of_int K"
    by (simp only: of_int_le_iff)
  then have "of_int (roundHalfEven (\<bar>x\<bar> / u)) * u \<le> of_int K * u"
    using u by (simp add: mult_right_mono)
  then show ?thesis using x K by (simp add: toDouble_def Let_def u_def)
qed


subsection \<open>The binary exponent\<close>

lemma pow2_power_int: "pow2 e = power_int 2 e"
  by (simp add: pow2_def power_int_def power_one_over)






lemma pow2_mono: "i \<le> j \<Longrightarrow> pow2 i \<le> pow2 j"
  by (simp add: pow2_power_int power_int_increasing)

lemma pow2_strict_mono: "i < j \<Longrightarrow> pow2 i < pow2 j"
  by (simp add: pow2_power_int power_int_strict_increasing)


lemma pow2_le_iff: "pow2 i \<le> pow2 j \<longleftrightarrow> i \<le> j"
  using pow2_mono[of i j] pow2_strict_mono[of j i] by (auto simp: not_le[symmetric])








subsection \<open>Rounding to a multiple of the unit in the last place\<close>










subsection \<open>Numbers that are doubles\<close>










subsection \<open>Four equal doubles\<close>



subsection \<open>Known doubles\<close>

text \<open>
  The rounding on numbers whose doubles are well known: the literal \<^verbatim>\<open>0.1\<close>; the sum
  \<^verbatim>\<open>0.1 + 0.2\<close>, which is 0.30000000000000004; the two integers next to \<open>2 ^ 53\<close> that lie
  half way between doubles, rounded to the even significand; and the three weights of the
  luminance.
\<close>

lemma double_examples:
  "toDouble (1 / 10) = 3602879701896397 / 36028797018963968"
  "addD (toDouble (1 / 10)) (toDouble (2 / 10)) = 1351079888211149 / 4503599627370496"
  "toDouble 9007199254740993 = 9007199254740992"
  "toDouble 9007199254740995 = 9007199254740996"
  by code_simp+

lemma literal_values:
  "lit0299 = 5386305154335113 / 18014398509481984"
  "lit0587 = 2643612981266481 / 4503599627370496"
  "lit0114 = 8214565720323785 / 72057594037927936"
  by code_simp+

section \<open>Brightness ramps: correctness\<close>

lemma ramp_lengths:
  "length blockChars = 9" "length shadeChars = 5" "length asciiChars = 10"
  "length brailleChars = 9" "length dotChars = 17"
  by (simp_all add: blockChars_def shadeChars_def asciiChars_def brailleChars_def dotChars_def
      str_def)

lemma divD_255_unit:
  assumes "0 \<le> brightness" "brightness \<le> 255"
  shows "0 \<le> divD brightness 255" "divD brightness 255 \<le> 1"
proof -
  have "0 \<le> brightness / 255" "brightness / 255 \<le> of_nat 1" using assms by simp_all
  from toDouble_nonneg[OF this(1)] toDouble_le_nat[OF this]
  show "0 \<le> divD brightness 255" "divD brightness 255 \<le> 1"
    by (simp_all add: divD_def)
qed

lemma floor_scaled_bounds:
  fixes nb :: rat and n :: nat
  assumes "0 \<le> nb" "nb \<le> 1" "n < 2 ^ 52"
  shows "0 \<le> \<lfloor>mulD nb (of_nat n)\<rfloor>" "\<lfloor>mulD nb (of_nat n)\<rfloor> \<le> int n"
proof -
  have lo: "0 \<le> nb * of_nat n" using assms by simp
  have "nb * of_nat n \<le> 1 * of_nat n"
    using assms by (intro mult_right_mono) simp_all
  then have hi: "nb * of_nat n \<le> of_nat n" by simp
  have "0 \<le> mulD nb (of_nat n)" unfolding mulD_def by (rule toDouble_nonneg[OF lo])
  then show "0 \<le> \<lfloor>mulD nb (of_nat n)\<rfloor>" by simp
  have "mulD nb (of_nat n) \<le> of_nat n"
    unfolding mulD_def by (rule toDouble_le_nat[OF lo hi assms(3)])
  then have "\<lfloor>mulD nb (of_nat n)\<rfloor> \<le> \<lfloor>(of_nat n :: rat)\<rfloor>" by (rule floor_mono)
  then show "\<lfloor>mulD nb (of_nat n)\<rfloor> \<le> int n" by simp
qed

lemma rampIndex_bounds:
  assumes "mode \<noteq> Pixels"
  shows "0 \<le> rampIndex mode brightness"
    and "rampIndex mode brightness \<le> int (length (rampOf mode)) - 1"
proof -
  define n where "n = length (rampOf mode) - 1"
  have n: "n < 2 ^ 52" "int (length (rampOf mode)) - 1 = int n"
    using assms by (cases mode; simp add: ramp_lengths n_def)+
  have e: "(of_int (int n) :: rat) = of_nat n" by simp
  have nb: "0 \<le> min 1 (max 0 (divD brightness 255))" "min 1 (max 0 (divD brightness 255)) \<le> 1"
    by simp_all
  show "0 \<le> rampIndex mode brightness"
    unfolding rampIndex_def n(2) e by (rule floor_scaled_bounds(1)[OF nb n(1)])
  show "rampIndex mode brightness \<le> int (length (rampOf mode)) - 1"
    unfolding rampIndex_def n(2) e by (rule floor_scaled_bounds(2)[OF nb n(1)])
qed

lemma getCharForBrightness_rampIndex:
  "mode \<noteq> Pixels \<Longrightarrow>
   getCharForBrightness mode brightness = stringIndex (rampOf mode) (rampIndex mode brightness)"
  by (cases mode) (simp_all add: getCharForBrightness_def rampIndex_def Let_def)

text \<open>
  Claim C6. In every ramp mode (Blocks, Shades, Ascii, Braille, Dots) and for every
  brightness from 0 to 255, both ends included, the index that \<^verbatim>\<open>getCharForBrightness\<close>
  computes, \<^verbatim>\<open>Math.floor(normalizedBrightness * (ramp.length - 1))\<close> with
  \<^verbatim>\<open>normalizedBrightness = brightness / 255\<close> (the clamp to the interval from 0 to 1
  changes nothing there), product and quotient rounded as doubles, lies between 0 and
  \<open>ramp.length - 1\<close>, and \<^verbatim>\<open>getCharForBrightness\<close> returns the ramp's glyph at that index.
  For a sample \<open>p\<close>, \<^verbatim>\<open>renderFrame\<close> passes the brightness
  \<^verbatim>\<open>r * 0.299 + g * 0.587 + b * 0.114\<close>, computed in doubles, to it and sets the foreground
  to the sample's colour, written as \<open>#rrggbb\<close>, and the background to black.
\<close>

theorem ramp_glyph:
  assumes "mode \<noteq> Pixels" "0 \<le> brightness" "brightness \<le> 255"
  shows "rampIndex mode brightness
      = \<lfloor>mulD (divD brightness 255) (of_int (int (length (rampOf mode)) - 1))\<rfloor>
    \<and> 0 \<le> rampIndex mode brightness
    \<and> rampIndex mode brightness \<le> int (length (rampOf mode)) - 1
    \<and> getCharForBrightness mode brightness
        = Some [rampOf mode ! nat (rampIndex mode brightness)]
    \<and> renderFrameCell mode p
        = (getCharForBrightness mode
             (addD (addD (mulD (r p) lit0299) (mulD (g p) lit0587)) (mulD (b p) lit0114)),
           str ''#'' @ toHex (r p) @ toHex (g p) @ toHex (b p), str ''#000000'')"
proof -
  have nb: "min 1 (max 0 (divD brightness 255)) = divD brightness 255"
    using divD_255_unit[OF assms(2,3)] by (simp add: min_def max_def)
  note bnd = rampIndex_bounds[OF assms(1), of brightness]
  have "getCharForBrightness mode brightness
        = Some [rampOf mode ! nat (rampIndex mode brightness)]"
    using bnd by (simp add: getCharForBrightness_rampIndex[OF assms(1)] stringIndex_def)
  moreover have "renderFrameCell mode p
        = (getCharForBrightness mode
             (addD (addD (mulD (r p) lit0299) (mulD (g p) lit0587)) (mulD (b p) lit0114)),
           str ''#'' @ toHex (r p) @ toHex (g p) @ toHex (b p), str ''#000000'')"
    using assms(1) by (simp add: renderFrameCell_def Let_def)
  moreover have "rampIndex mode brightness
      = \<lfloor>mulD (divD brightness 255) (of_int (int (length (rampOf mode)) - 1))\<rfloor>"
    by (simp only: rampIndex_def nb)
  ultimately show ?thesis using bnd by blast
qed

text \<open>
  The theorem at the two ends of the range and at two samples. The sample (0, 102, 34) has
  the brightness 63.74999999999999 in doubles, just below a quarter of 255, so its glyph in
  the Shades ramp is the space at index 0.
\<close>

lemma ramp_cells:
  "getCharForBrightness Ascii
     (addD (addD (mulD 255 lit0299) (mulD 0 lit0587)) (mulD 16 lit0114)) = Some (str '','')"
  "getCharForBrightness Shades
     (addD (addD (mulD 0 lit0299) (mulD 102 lit0587)) (mulD 34 lit0114)) = Some (str '' '')"
  by code_simp+

lemma toHex_values:
  "toHex 255 = str ''ff''" "toHex 0 = str ''00''" "toHex 16 = str ''10''"
  "toHex 102 = str ''66''" "toHex 34 = str ''22''"
  by code_simp+

lemma ramp_ends:
  "divD 0 255 = 0" "divD 255 255 = 1" "mulD 0 4 = 0" "mulD 1 4 = 4" "mulD 1 16 = 16"
  by code_simp+

theorem ramp_glyph_witness:
  "getCharForBrightness Shades 0 = Some (str '' '')
   \<and> getCharForBrightness Shades 255 = Some [0x2588]
   \<and> rampIndex Dots 255 = 16
   \<and> renderFrameCell Ascii \<lparr>r = 255, g = 0, b = 16\<rparr>
       = (Some (str '',''), str ''#ff0010'', str ''#000000'')
   \<and> renderFrameCell Shades \<lparr>r = 0, g = 102, b = 34\<rparr>
       = (Some (str '' ''), str ''#006622'', str ''#000000'')"
proof -
  let ?p = "\<lparr>r = 255, g = 0, b = 16\<rparr> :: rat rgb"
  let ?q = "\<lparr>r = 0, g = 102, b = 34\<rparr> :: rat rgb"
  have h: "Shades \<noteq> Pixels" "Dots \<noteq> Pixels" "Ascii \<noteq> Pixels" "(0::rat) \<le> 0" "(0::rat) \<le> 255"
    "(255::rat) \<le> 255" by simp_all
  note lo = ramp_glyph[OF h(1) h(4) h(5), of ?q]
  note hi = ramp_glyph[OF h(1) h(5) h(6), of ?q]
  note dots = ramp_glyph[OF h(2) h(5) h(6), of ?p]
  note cell = ramp_glyph[OF h(3) h(5) h(6), of ?p]
  have i0: "rampIndex Shades 0 = 0" using lo by (simp add: ramp_lengths ramp_ends)
  have i4: "rampIndex Shades 255 = 4" using hi by (simp add: ramp_lengths ramp_ends)
  have c0: "getCharForBrightness Shades 0 = Some (str '' '')"
    using lo by (simp add: i0 shadeChars_def str_def)
  have c4: "getCharForBrightness Shades 255 = Some [0x2588]"
    using hi by (simp add: i4 shadeChars_def)
  have d: "rampIndex Dots 255 = 16" using dots by (simp add: ramp_lengths ramp_ends)
  have "renderFrameCell Ascii ?p = (Some (str '',''), str ''#ff0010'', str ''#000000'')"
    using cell by (simp add: ramp_cells toHex_values str_def)
  moreover have "renderFrameCell Shades ?q = (Some (str '' ''), str ''#006622'', str ''#000000'')"
    using lo by (simp add: ramp_cells toHex_values str_def)
  ultimately show ?thesis using c0 c4 d by blast
qed

section \<open>Quadrant encoders: correctness\<close>

lemma quadrantChars_table: "length quadrantChars = 16" "distinct quadrantChars"
  by (simp_all add: quadrantChars_def str_def)

lemma quadrantMask_less: "quadrantMask d1 d2 d3 d4 < 16"
  by (simp add: quadrantMask_def)

lemma renderQuadrant_spec:
  "renderQuadrant [p1, p2, p3, p4] = quadrantSpec p1 p2 p3 p4"
proof -
  define m where "m = meanLuminance p1 p2 p3 p4"
  have lum: "addD (addD (mulD lit0299 (r q)) (mulD lit0587 (g q))) (mulD lit0114 (b q))
      = luminance q" for q
    by (simp add: luminance_def)
  have avg: "divD (foldl addD (luminance p1) [luminance p2, luminance p3, luminance p4]) 4 = m"
    by (simp add: m_def meanLuminance_def)
  show ?thesis
    unfolding renderQuadrant_def quadrantSpec_def Let_def list.map list.sel lum avg
      m_def[symmetric]
    by (cases "luminance p1 < m"; cases "luminance p2 < m"; cases "luminance p3 < m";
        cases "luminance p4 < m")
       (simp_all add: accumulate_def addColor_def partitionColor_def quadrantMask_def sumD_def)
qed

lemma foldl_min_least:
  fixes x :: "'a::linorder"
  shows "foldl min x xs \<in> set (x # xs) \<and> (\<forall>y\<in>set (x # xs). foldl min x xs \<le> y)"
proof (induction xs arbitrary: x)
  case Nil
  show ?case by simp
next
  case (Cons a xs)
  from Cons[of "min x a"] show ?case
    by (auto simp: min_def split: if_splits)
qed

lemma foldl_max_greatest:
  fixes x :: "'a::linorder"
  shows "foldl max x xs \<in> set (x # xs) \<and> (\<forall>y\<in>set (x # xs). y \<le> foldl max x xs)"
proof (induction xs arbitrary: x)
  case Nil
  show ?case by simp
next
  case (Cons a xs)
  from Cons[of "max x a"] show ?case
    by (auto simp: max_def split: if_splits)
qed

lemma indexOf_member:
  assumes "v \<in> set xs"
  shows "0 \<le> indexOf xs v" "nat (indexOf xs v) < length xs" "xs ! nat (indexOf xs v) = v"
proof -
  have "length (takeWhile (\<lambda>x. x \<noteq> v) xs) < length xs \<and> xs ! length (takeWhile (\<lambda>x. x \<noteq> v) xs) = v"
    using assms by (induction xs) auto
  then show "0 \<le> indexOf xs v" "nat (indexOf xs v) < length xs" "xs ! nat (indexOf xs v) = v"
    using assms by (simp_all add: indexOf_def)
qed

lemma renderFallbackCell_glyph:
  "fst (renderFallbackCell [p1, p2, p3, p4])
     = quadrantChars ! quadrantMask
         (luminance p1 < luminance (meanColor p1 p2 p3 p4))
         (luminance p2 < luminance (meanColor p1 p2 p3 p4))
         (luminance p3 < luminance (meanColor p1 p2 p3 p4))
         (luminance p4 < luminance (meanColor p1 p2 p3 p4))"
  by (simp add: renderFallbackCell_def Let_def quadrantMask_def luminance_def meanColor_def
      sumD_def)

lemma renderFallbackCell_picks:
  "snd (renderFallbackCell pixels)
     = (pixels ! nat (indexOf (map luminance pixels)
                       (foldl min (hd (map luminance pixels)) (tl (map luminance pixels)))),
        pixels ! nat (indexOf (map luminance pixels)
                       (foldl max (hd (map luminance pixels)) (tl (map luminance pixels)))))"
proof -
  have e: "map (\<lambda>p. addD (addD (mulD lit0299 (r p)) (mulD lit0587 (g p))) (mulD lit0114 (b p)))
      pixels = map luminance pixels"
    by (simp add: luminance_def)
  show ?thesis
    unfolding renderFallbackCell_def Let_def e by simp
qed

lemma renderFallbackCell_colours:
  assumes "pixels \<noteq> []"
  shows "fst (snd (renderFallbackCell pixels)) \<in> set pixels"
    and "\<forall>q\<in>set pixels. luminance (fst (snd (renderFallbackCell pixels))) \<le> luminance q"
    and "snd (snd (renderFallbackCell pixels)) \<in> set pixels"
    and "\<forall>q\<in>set pixels. luminance q \<le> luminance (snd (snd (renderFallbackCell pixels)))"
proof -
  define ls where "ls = map luminance pixels"
  have ls: "ls \<noteq> []" "length ls = length pixels" "hd ls # tl ls = ls"
    using assms by (simp_all add: ls_def)
  define lo where "lo = foldl min (hd ls) (tl ls)"
  define hi where "hi = foldl max (hd ls) (tl ls)"
  have lo: "lo \<in> set ls" "\<forall>y\<in>set ls. lo \<le> y"
    using foldl_min_least[of "hd ls" "tl ls"] unfolding ls(3) lo_def by blast+
  have hi: "hi \<in> set ls" "\<forall>y\<in>set ls. y \<le> hi"
    using foldl_max_greatest[of "hd ls" "tl ls"] unfolding ls(3) hi_def by blast+
  have fg: "fst (snd (renderFallbackCell pixels)) = pixels ! nat (indexOf ls lo)"
    and bg: "snd (snd (renderFallbackCell pixels)) = pixels ! nat (indexOf ls hi)"
    unfolding renderFallbackCell_picks ls_def lo_def hi_def by simp_all
  note i = indexOf_member[OF lo(1)] and j = indexOf_member[OF hi(1)]
  have "luminance (pixels ! nat (indexOf ls lo)) = lo"
    using i(2,3) ls(2) by (simp add: ls_def)
  moreover have "luminance (pixels ! nat (indexOf ls hi)) = hi"
    using j(2,3) ls(2) by (simp add: ls_def)
  ultimately show "fst (snd (renderFallbackCell pixels)) \<in> set pixels"
    "\<forall>q\<in>set pixels. luminance (fst (snd (renderFallbackCell pixels))) \<le> luminance q"
    "snd (snd (renderFallbackCell pixels)) \<in> set pixels"
    "\<forall>q\<in>set pixels. luminance q \<le> luminance (snd (snd (renderFallbackCell pixels)))"
    using i(2) j(2) ls(2) lo(2) hi(2) by (simp_all add: fg bg ls_def)
qed

text \<open>
  Claim C4, as the code has it. For every four sub-samples, \<^verbatim>\<open>renderQuadrant\<close> computes
  what \<open>quadrantSpec\<close> describes, in the arithmetic of doubles: the luminance of each
  sub-sample, the partition into dark (strictly below the mean of the four luminances) and
  light, per partition the mean colour with each channel rounded to the nearest integer
  (black for an empty dark partition, white for an empty light one), and the glyph at the
  four-bit mask, top-left bit first, in a table of sixteen distinct glyphs.
  \<^verbatim>\<open>renderFallback\<close> takes its glyph from the same table by a mask of the same layout, but
  a sub-sample is dark there when its luminance is strictly below the luminance of the mean
  colour of the four, and its colours are not averages: the foreground is the colour of a
  sub-sample of least luminance and the background the colour of one of greatest luminance.
\<close>

theorem quadrant_encoders:
  "renderQuadrant [p1, p2, p3, p4] = quadrantSpec p1 p2 p3 p4
   \<and> length quadrantChars = 16 \<and> distinct quadrantChars \<and> quadrantMask d1 d2 d3 d4 < 16
   \<and> fst (renderFallbackCell [p1, p2, p3, p4])
       = quadrantChars ! quadrantMask
           (luminance p1 < luminance (meanColor p1 p2 p3 p4))
           (luminance p2 < luminance (meanColor p1 p2 p3 p4))
           (luminance p3 < luminance (meanColor p1 p2 p3 p4))
           (luminance p4 < luminance (meanColor p1 p2 p3 p4))
   \<and> fst (snd (renderFallbackCell [p1, p2, p3, p4])) \<in> set [p1, p2, p3, p4]
   \<and> (\<forall>q\<in>set [p1, p2, p3, p4].
         luminance (fst (snd (renderFallbackCell [p1, p2, p3, p4]))) \<le> luminance q)
   \<and> snd (snd (renderFallbackCell [p1, p2, p3, p4])) \<in> set [p1, p2, p3, p4]
   \<and> (\<forall>q\<in>set [p1, p2, p3, p4].
         luminance q \<le> luminance (snd (snd (renderFallbackCell [p1, p2, p3, p4]))))"
proof -
  have ne: "[p1, p2, p3, p4] \<noteq> []" by simp
  from renderQuadrant_spec[of p1 p2 p3 p4] quadrantChars_table quadrantMask_less[of d1 d2 d3 d4]
    renderFallbackCell_glyph[of p1 p2 p3 p4] renderFallbackCell_colours[OF ne]
  show ?thesis by blast
qed

subsection \<open>The encoders on four cells\<close>

text \<open>
  The luminances and means that the encoders compute, as the doubles they are, for the
  sub-samples of four cells: two colours whose exact luminances are equal and whose computed
  ones differ in the last bit; greys around (4, 4, 4), whose computed luminance is just below
  4; black, black, grey and white; and four identical sub-samples.
\<close>

lemma luminance_value_1:
  "luminance \<lparr>r = 11, g = 1, b = 0\<rparr> = 2181994019461005 / 562949953421312"
  by code_simp

lemma luminance_value_2:
  "luminance \<lparr>r = 0, g = 0, b = 34\<rparr> = 4363988038922011 / 1125899906842624"
  by code_simp

lemma luminance_value_3:
  "luminance \<lparr>r = 4, g = 4, b = 4\<rparr> = 9007199254740991 / 2251799813685248"
  by code_simp

lemma luminance_value_4:
  "luminance \<lparr>r = 3, g = 3, b = 3\<rparr> = 3"
  by code_simp

lemma luminance_value_5:
  "luminance \<lparr>r = 5, g = 5, b = 5\<rparr> = 5"
  by code_simp

lemma luminance_value_6:
  "luminance \<lparr>r = 0, g = 0, b = 0\<rparr> = 0"
  by code_simp

lemma luminance_value_7:
  "luminance \<lparr>r = 100, g = 100, b = 100\<rparr> = 100"
  by code_simp

lemma luminance_value_8:
  "luminance \<lparr>r = 255, g = 255, b = 255\<rparr> = 255"
  by code_simp

lemma luminance_value_9:
  "luminance \<lparr>r = 10, g = 20, b = 30\<rparr> = 2554385413649203 / 140737488355328"
  by code_simp

lemmas luminance_values = luminance_value_1 luminance_value_2 luminance_value_3 luminance_value_4 luminance_value_5 luminance_value_6 luminance_value_7 luminance_value_8 luminance_value_9

lemma meanLuminance_v24:
  "meanLuminance \<lparr>r = 11, g = 1, b = 0\<rparr>
     \<lparr>r = 0, g = 0, b = 34\<rparr>
     \<lparr>r = 11, g = 1, b = 0\<rparr>
     \<lparr>r = 0, g = 0, b = 34\<rparr>
     = 4363988038922011 / 1125899906842624"
  unfolding meanLuminance_def luminance_values by code_simp

lemma meanLuminance_grey:
  "meanLuminance \<lparr>r = 4, g = 4, b = 4\<rparr>
     \<lparr>r = 4, g = 4, b = 4\<rparr>
     \<lparr>r = 3, g = 3, b = 3\<rparr>
     \<lparr>r = 5, g = 5, b = 5\<rparr>
     = 4"
  unfolding meanLuminance_def luminance_values by code_simp

lemma meanLuminance_bw:
  "meanLuminance \<lparr>r = 0, g = 0, b = 0\<rparr>
     \<lparr>r = 0, g = 0, b = 0\<rparr>
     \<lparr>r = 100, g = 100, b = 100\<rparr>
     \<lparr>r = 255, g = 255, b = 255\<rparr>
     = 355 / 4"
  unfolding meanLuminance_def luminance_values by code_simp


lemma meanColor_v24:
  "meanColor \<lparr>r = 11, g = 1, b = 0\<rparr>
     \<lparr>r = 0, g = 0, b = 34\<rparr>
     \<lparr>r = 11, g = 1, b = 0\<rparr>
     \<lparr>r = 0, g = 0, b = 34\<rparr>
     = \<lparr>r = 11 / 2, g = 1 / 2, b = 17\<rparr>"
  by code_simp

lemma luminance_meanColor_v24:
  "luminance \<lparr>r = 11 / 2, g = 1 / 2, b = 17\<rparr> = 8727976077844021 / 2251799813685248"
  by code_simp

lemma meanColor_grey:
  "meanColor \<lparr>r = 4, g = 4, b = 4\<rparr>
     \<lparr>r = 4, g = 4, b = 4\<rparr>
     \<lparr>r = 3, g = 3, b = 3\<rparr>
     \<lparr>r = 5, g = 5, b = 5\<rparr>
     = \<lparr>r = 4, g = 4, b = 4\<rparr>"
  by code_simp

lemma luminance_meanColor_grey:
  "luminance \<lparr>r = 4, g = 4, b = 4\<rparr> = 9007199254740991 / 2251799813685248"
  by code_simp

lemma meanColor_bw:
  "meanColor \<lparr>r = 0, g = 0, b = 0\<rparr>
     \<lparr>r = 0, g = 0, b = 0\<rparr>
     \<lparr>r = 100, g = 100, b = 100\<rparr>
     \<lparr>r = 255, g = 255, b = 255\<rparr>
     = \<lparr>r = 355 / 4, g = 355 / 4, b = 355 / 4\<rparr>"
  by code_simp

lemma luminance_meanColor_bw:
  "luminance \<lparr>r = 355 / 4, g = 355 / 4, b = 355 / 4\<rparr> = 355 / 4"
  by code_simp

lemma partitionColor_values:
  "partitionColor [\<lparr>r = 11, g = 1, b = 0\<rparr>, \<lparr>r = 11, g = 1, b = 0\<rparr>]
      \<lparr>r = 0, g = 0, b = 0\<rparr> = \<lparr>r = 11, g = 1, b = 0\<rparr>"
  "partitionColor [\<lparr>r = 0, g = 0, b = 34\<rparr>, \<lparr>r = 0, g = 0, b = 34\<rparr>]
      \<lparr>r = 255, g = 255, b = 255\<rparr> = \<lparr>r = 0, g = 0, b = 34\<rparr>"
  "partitionColor [\<lparr>r = 4, g = 4, b = 4\<rparr>, \<lparr>r = 4, g = 4, b = 4\<rparr>,
      \<lparr>r = 3, g = 3, b = 3\<rparr>] \<lparr>r = 0, g = 0, b = 0\<rparr>
      = \<lparr>r = 4, g = 4, b = 4\<rparr>"
  "partitionColor [\<lparr>r = 5, g = 5, b = 5\<rparr>] \<lparr>r = 255, g = 255, b = 255\<rparr>
      = \<lparr>r = 5, g = 5, b = 5\<rparr>"
  "partitionColor [\<lparr>r = 0, g = 0, b = 0\<rparr>, \<lparr>r = 0, g = 0, b = 0\<rparr>]
      \<lparr>r = 0, g = 0, b = 0\<rparr> = \<lparr>r = 0, g = 0, b = 0\<rparr>"
  "partitionColor [\<lparr>r = 100, g = 100, b = 100\<rparr>,
      \<lparr>r = 255, g = 255, b = 255\<rparr>] \<lparr>r = 255, g = 255, b = 255\<rparr>
      = \<lparr>r = 178, g = 178, b = 178\<rparr>"
  "partitionColor [\<lparr>r = 10, g = 20, b = 30\<rparr>, \<lparr>r = 10, g = 20, b = 30\<rparr>,
      \<lparr>r = 10, g = 20, b = 30\<rparr>, \<lparr>r = 10, g = 20, b = 30\<rparr>]
      \<lparr>r = 255, g = 255, b = 255\<rparr> = \<lparr>r = 10, g = 20, b = 30\<rparr>"
  by code_simp+

lemma quadrantSpec_v24:
  "quadrantSpec \<lparr>r = 11, g = 1, b = 0\<rparr> \<lparr>r = 0, g = 0, b = 34\<rparr>
      \<lparr>r = 11, g = 1, b = 0\<rparr> \<lparr>r = 0, g = 0, b = 34\<rparr>
      = ([0x258C], \<lparr>r = 11, g = 1, b = 0\<rparr>, \<lparr>r = 0, g = 0, b = 34\<rparr>)"
  by (simp add: quadrantSpec_def Let_def luminance_values meanLuminance_v24 quadrantMask_def
      quadrantChars_def partitionColor_values)

lemma quadrantSpec_grey:
  "quadrantSpec \<lparr>r = 4, g = 4, b = 4\<rparr> \<lparr>r = 4, g = 4, b = 4\<rparr>
      \<lparr>r = 3, g = 3, b = 3\<rparr> \<lparr>r = 5, g = 5, b = 5\<rparr>
      = ([0x259B], \<lparr>r = 4, g = 4, b = 4\<rparr>, \<lparr>r = 5, g = 5, b = 5\<rparr>)"
  by (simp add: quadrantSpec_def Let_def luminance_values meanLuminance_grey quadrantMask_def
      quadrantChars_def partitionColor_values)

lemma quadrantSpec_bw:
  "quadrantSpec \<lparr>r = 0, g = 0, b = 0\<rparr> \<lparr>r = 0, g = 0, b = 0\<rparr>
      \<lparr>r = 100, g = 100, b = 100\<rparr> \<lparr>r = 255, g = 255, b = 255\<rparr>
      = ([0x2580], \<lparr>r = 0, g = 0, b = 0\<rparr>,
      \<lparr>r = 178, g = 178, b = 178\<rparr>)"
  by (simp add: quadrantSpec_def Let_def luminance_values meanLuminance_bw quadrantMask_def
      quadrantChars_def partitionColor_values)

lemma renderFallbackCell_v24:
  "renderFallbackCell [\<lparr>r = 11, g = 1, b = 0\<rparr>, \<lparr>r = 0, g = 0, b = 34\<rparr>,
      \<lparr>r = 11, g = 1, b = 0\<rparr>, \<lparr>r = 0, g = 0, b = 34\<rparr>]
      = ([0x258C], \<lparr>r = 11, g = 1, b = 0\<rparr>, \<lparr>r = 0, g = 0, b = 34\<rparr>)"
  by (simp add: prod_eq_iff renderFallbackCell_glyph renderFallbackCell_picks luminance_values
      meanColor_v24 luminance_meanColor_v24 quadrantMask_def quadrantChars_def indexOf_def)

lemma renderFallbackCell_grey:
  "renderFallbackCell [\<lparr>r = 4, g = 4, b = 4\<rparr>, \<lparr>r = 4, g = 4, b = 4\<rparr>,
      \<lparr>r = 3, g = 3, b = 3\<rparr>, \<lparr>r = 5, g = 5, b = 5\<rparr>]
      = ([0x2596], \<lparr>r = 3, g = 3, b = 3\<rparr>, \<lparr>r = 5, g = 5, b = 5\<rparr>)"
  by (simp add: prod_eq_iff renderFallbackCell_glyph renderFallbackCell_picks luminance_values
      meanColor_grey luminance_meanColor_grey quadrantMask_def quadrantChars_def indexOf_def)

lemma renderFallbackCell_bw:
  "renderFallbackCell [\<lparr>r = 0, g = 0, b = 0\<rparr>, \<lparr>r = 0, g = 0, b = 0\<rparr>,
      \<lparr>r = 100, g = 100, b = 100\<rparr>, \<lparr>r = 255, g = 255, b = 255\<rparr>]
      = ([0x2580], \<lparr>r = 0, g = 0, b = 0\<rparr>,
      \<lparr>r = 255, g = 255, b = 255\<rparr>)"
  by (simp add: prod_eq_iff renderFallbackCell_glyph renderFallbackCell_picks luminance_values
      meanColor_bw luminance_meanColor_bw quadrantMask_def quadrantChars_def indexOf_def)

text \<open>
  The sub-samples (11, 1, 0) and (0, 0, 34) have the same exact luminance 3.876; in doubles
  the first has 3.8759999999999994 and the second 3.8760000000000003, which is also the mean,
  so the first is dark and the second light, in both encoders.
\<close>

lemma quadrant_rounding:
  "renderQuadrant [\<lparr>r = 11, g = 1, b = 0\<rparr>, \<lparr>r = 0, g = 0, b = 34\<rparr>,
      \<lparr>r = 11, g = 1, b = 0\<rparr>, \<lparr>r = 0, g = 0, b = 34\<rparr>]
      = ([0x258C], \<lparr>r = 11, g = 1, b = 0\<rparr>, \<lparr>r = 0, g = 0, b = 34\<rparr>)
   \<and> renderFallbackCell [\<lparr>r = 11, g = 1, b = 0\<rparr>,
       \<lparr>r = 0, g = 0, b = 34\<rparr>, \<lparr>r = 11, g = 1, b = 0\<rparr>,
       \<lparr>r = 0, g = 0, b = 34\<rparr>] = ([0x258C], \<lparr>r = 11, g = 1, b = 0\<rparr>,
       \<lparr>r = 0, g = 0, b = 34\<rparr>)"
  by (simp add: renderQuadrant_spec quadrantSpec_v24 renderFallbackCell_v24)

theorem quadrant_encoders_witness:
  "renderQuadrant [\<lparr>r = 0, g = 0, b = 0\<rparr>, \<lparr>r = 0, g = 0, b = 0\<rparr>,
      \<lparr>r = 100, g = 100, b = 100\<rparr>, \<lparr>r = 255, g = 255, b = 255\<rparr>]
      = ([0x2580], \<lparr>r = 0, g = 0, b = 0\<rparr>, \<lparr>r = 178, g = 178, b = 178\<rparr>)
   \<and> fst (renderFallbackCell [\<lparr>r = 0, g = 0, b = 0\<rparr>,
       \<lparr>r = 0, g = 0, b = 0\<rparr>, \<lparr>r = 100, g = 100, b = 100\<rparr>,
       \<lparr>r = 255, g = 255, b = 255\<rparr>]) = [0x2580]
   \<and> luminance (fst (snd (renderFallbackCell [\<lparr>r = 0, g = 0, b = 0\<rparr>,
       \<lparr>r = 0, g = 0, b = 0\<rparr>, \<lparr>r = 100, g = 100, b = 100\<rparr>,
       \<lparr>r = 255, g = 255, b = 255\<rparr>]))) \<le> luminance \<lparr>r = 100, g = 100, b = 100\<rparr>
   \<and> luminance \<lparr>r = 100, g = 100, b = 100\<rparr>
       \<le> luminance (snd (snd (renderFallbackCell [\<lparr>r = 0, g = 0, b = 0\<rparr>,
       \<lparr>r = 0, g = 0, b = 0\<rparr>, \<lparr>r = 100, g = 100, b = 100\<rparr>,
       \<lparr>r = 255, g = 255, b = 255\<rparr>])))"
proof -
  from quadrant_encoders[of "\<lparr>r = 0, g = 0, b = 0\<rparr>"
      "\<lparr>r = 0, g = 0, b = 0\<rparr>"
      "\<lparr>r = 100, g = 100, b = 100\<rparr>" "\<lparr>r = 255, g = 255, b = 255\<rparr>"]
  show ?thesis
    by (simp add: quadrantSpec_bw luminance_values meanColor_bw luminance_meanColor_bw
        quadrantMask_def quadrantChars_def)
qed

text \<open>
  The claim as written has every quadrant encoder partition by the mean of the four
  luminances and average the colours within each partition. \<^verbatim>\<open>renderFallback\<close> does
  neither. For the sub-samples black, black, grey (100), white, the light partition is grey
  and white, whose average is (178, 178, 178); \<^verbatim>\<open>renderFallback\<close> sets the background to
  white. For the greys 4, 4, 3, 5 the computed luminance of (4, 4, 4) is
  3.9999999999999996, which is below the mean 4 of the four computed luminances and not
  below the computed luminance of the mean colour (4, 4, 4): \<^verbatim>\<open>renderQuadrant\<close> has the mask
  14 and \<^verbatim>\<open>renderFallback\<close> the mask 2.
\<close>

theorem fallback_counterexample:
  "renderFallbackCell [\<lparr>r = 0, g = 0, b = 0\<rparr>, \<lparr>r = 0, g = 0, b = 0\<rparr>,
      \<lparr>r = 100, g = 100, b = 100\<rparr>, \<lparr>r = 255, g = 255, b = 255\<rparr>]
      = ([0x2580], \<lparr>r = 0, g = 0, b = 0\<rparr>, \<lparr>r = 255, g = 255, b = 255\<rparr>)
   \<and> partitionColor [\<lparr>r = 100, g = 100, b = 100\<rparr>,
       \<lparr>r = 255, g = 255, b = 255\<rparr>] \<lparr>r = 255, g = 255, b = 255\<rparr>
       = \<lparr>r = 178, g = 178, b = 178\<rparr>
   \<and> renderFallbackCell [\<lparr>r = 4, g = 4, b = 4\<rparr>,
       \<lparr>r = 4, g = 4, b = 4\<rparr>, \<lparr>r = 3, g = 3, b = 3\<rparr>,
       \<lparr>r = 5, g = 5, b = 5\<rparr>] = ([0x2596], \<lparr>r = 3, g = 3, b = 3\<rparr>,
       \<lparr>r = 5, g = 5, b = 5\<rparr>)
   \<and> renderQuadrant [\<lparr>r = 4, g = 4, b = 4\<rparr>,
       \<lparr>r = 4, g = 4, b = 4\<rparr>, \<lparr>r = 3, g = 3, b = 3\<rparr>,
       \<lparr>r = 5, g = 5, b = 5\<rparr>] = ([0x259B], \<lparr>r = 4, g = 4, b = 4\<rparr>,
       \<lparr>r = 5, g = 5, b = 5\<rparr>)
   \<and> quadrantChars ! 2 = [0x2596] \<and> quadrantChars ! 14 = [0x259B]"
  by (simp add: renderFallbackCell_bw renderFallbackCell_grey partitionColor_values
      renderQuadrant_spec quadrantSpec_grey quadrantChars_def)


subsection \<open>Four identical sub-samples\<close>









section \<open>Render loop: correctness\<close>

lemma renderOne_fields [simp]:
  "renderables (renderOne t s) = renderables s" "running (renderOne t s) = running s"
  by (simp_all add: renderOne_def Let_def)

lemma fold_renderOne_fields [simp]:
  "renderables (fold renderOne ts s) = renderables s" "running (fold renderOne ts s) = running s"
  by (induction ts arbitrary: s) simp_all

lemma renderOne_other:
  "k \<noteq> ident t \<Longrightarrow> lastRenderState (renderOne t s) k = lastRenderState s k"
  by (simp add: renderOne_def Let_def)

lemma renderOne_recorded:
  "lastRenderState (renderOne t s) (ident t) = Some (stateHash t)"
  by (simp add: renderOne_def Let_def)

lemma fold_renderOne_other:
  "k \<notin> ident ` set ts \<Longrightarrow> lastRenderState (fold renderOne ts s) k = lastRenderState s k"
  by (induction ts arbitrary: s) (simp_all add: renderOne_other)

lemma fold_renderOne_recorded:
  "distinct (map ident ts) \<Longrightarrow> t \<in> set ts \<Longrightarrow>
   lastRenderState (fold renderOne ts s) (ident t) = Some (stateHash t)"
proof (induction ts arbitrary: s)
  case Nil
  then show ?case by simp
next
  case (Cons a ts)
  show ?case
  proof (cases "t \<in> set ts")
    case True
    with Cons show ?thesis by simp
  next
    case False
    with Cons.prems have "t = a" "ident a \<notin> ident ` set ts" by auto
    then show ?thesis by (simp add: fold_renderOne_other renderOne_recorded)
  qed
qed

lemma fold_renderOne_unchanged:
  "\<forall>t\<in>set ts. lastRenderState s (ident t) = Some (stateHash t) \<Longrightarrow> fold renderOne ts s = s"
  by (induction ts) (simp_all add: renderOne_def)

lemma distinct_map_insort_key:
  "distinct (map h (insort_key f x xs)) = (h x \<notin> h ` set xs \<and> distinct (map h xs))"
  by (induction xs) (auto simp: set_insort_key)

lemma distinct_map_sort_key:
  "distinct (map h (sort_key f xs)) = distinct (map h xs)"
  by (induction xs) (simp_all add: distinct_map_insort_key)

lemma insort_key_map_same:
  "(\<And>y. f (h y) = f y) \<Longrightarrow> insort_key f (h x) (map h xs) = map h (insort_key f x xs)"
  by (induction xs) simp_all

lemma sort_key_map_same:
  "(\<And>y. f (h y) = f y) \<Longrightarrow> sort_key f (map h xs) = map h (sort_key f xs)"
  by (induction xs) (simp_all add: insort_key_map_same)


lemma hexValue_bar: "hexValue 124 = None" "hexValue 35 = None"
  by (simp_all add: hexValue_def)

lemma hexToRgb_plain:
  assumes "hexToRgb c \<noteq> None"
  shows "124 \<notin> set c" and "c \<noteq> str ''undefined''"
proof -
  have d: "(c \<noteq> [] \<and> hd c = 35 \<and> length (tl c) = 6 \<and> list_all (\<lambda>x. hexValue x \<noteq> None) (tl c))
      \<or> (length c = 6 \<and> list_all (\<lambda>x. hexValue x \<noteq> None) c)"
    using assms by (auto simp: hexToRgb_def Let_def split: if_splits)
  show "124 \<notin> set c"
  proof
    assume bar: "124 \<in> set c"
    from d show False
    proof
      assume h: "c \<noteq> [] \<and> hd c = 35 \<and> length (tl c) = 6 \<and> list_all (\<lambda>x. hexValue x \<noteq> None) (tl c)"
      then have "c = 35 # tl c" by (cases c) simp_all
      with bar have "124 \<in> set (tl c)" by (metis numeral_eq_iff semiring_norm(88,89) set_ConsD
            num.distinct)
      with h hexValue_bar(1) show False by (auto simp: list_all_iff)
    next
      assume "length c = 6 \<and> list_all (\<lambda>x. hexValue x \<noteq> None) c"
      with bar hexValue_bar(1) show False by (auto simp: list_all_iff)
    qed
  qed
  show "c \<noteq> str ''undefined''"
    using d by (auto simp: str_def)
qed

lemma showOpt_color:
  assumes "isColor c"
  shows "124 \<notin> set (showOpt c)"
  using assms hexToRgb_plain(1)
  by (cases c) (auto simp: isColor_def showOpt_def str_def)

lemma showOpt_inj:
  assumes "isColor c" "isColor d" "showOpt c = showOpt d"
  shows "c = d"
  using assms hexToRgb_plain(2)
  by (cases c; cases d) (auto simp: isColor_def showOpt_def)

lemma takeWhile_separator:
  "x \<notin> set as \<Longrightarrow> takeWhile (\<lambda>y. y \<noteq> x) (as @ x # bs) = as"
  by (induction as) auto

lemma split_at_separator:
  assumes "x \<notin> set as" "x \<notin> set cs" "as @ x # bs = cs @ x # ds"
  shows "as = cs \<and> bs = ds"
proof -
  have "takeWhile (\<lambda>y. y \<noteq> x) (as @ x # bs) = as" "takeWhile (\<lambda>y. y \<noteq> x) (cs @ x # ds) = cs"
    using assms(1,2) by (simp_all add: takeWhile_separator)
  with assms(3) have "as = cs" by simp
  with assms(3) show ?thesis by simp
qed

lemma stateHash_colors:
  assumes "isColor f" "isColor g'" "isColor (fg t)" "isColor (bg t)"
    and "(f, g') \<noteq> (fg t, bg t)"
  shows "stateHash (t\<lparr>fg := f, bg := g'\<rparr>) \<noteq> stateHash t"
proof
  assume "stateHash (t\<lparr>fg := f, bg := g'\<rparr>) = stateHash t"
  then have e: "showOpt f @ 124 # (showOpt g' @ 124 # showInt (xPos t) @ 124 # showInt (yPos t))
      = showOpt (fg t) @ 124 # (showOpt (bg t) @ 124 # showInt (xPos t) @ 124 # showInt (yPos t))"
    by (simp add: stateHash_def str_def)
  from split_at_separator[OF showOpt_color[OF assms(1)] showOpt_color[OF assms(3)] e]
  have 1: "showOpt f = showOpt (fg t)"
    and 2: "showOpt g' @ 124 # showInt (xPos t) @ 124 # showInt (yPos t)
          = showOpt (bg t) @ 124 # showInt (xPos t) @ 124 # showInt (yPos t)"
    by simp_all
  from split_at_separator[OF showOpt_color[OF assms(2)] showOpt_color[OF assms(4)] 2]
  have "showOpt g' = showOpt (bg t)" by simp
  with 1 assms(1-4) have "f = fg t" "g' = bg t"
    by (auto intro: showOpt_inj)
  with assms(5) show False by simp
qed

lemma fold_renderOne_one_changed:
  assumes rec: "\<forall>t\<in>set ts. lastRenderState s (ident t) = Some (stateHash t)"
    and dist: "distinct (map ident ts)"
    and t0: "t0 \<in> set ts" "ident t1 = ident t0" "stateHash t1 \<noteq> stateHash t0"
  shows "fold renderOne (map (\<lambda>t. if ident t = ident t0 then t1 else t) ts) s
       = s\<lparr>writes := writes s @ cellWrites t1,
           lastRenderState := (lastRenderState s)(ident t0 \<mapsto> stateHash t1)\<rparr>"
proof -
  let ?h = "\<lambda>t. if ident t = ident t0 then t1 else t"
  from t0(1) obtain as bs where ts: "ts = as @ t0 # bs" by (auto simp: in_set_conv_decomp)
  have ids: "ident t0 \<notin> ident ` set as" "ident t0 \<notin> ident ` set bs"
    using dist by (auto simp: ts)
  have "?h t = t" if "t \<in> set as \<or> t \<in> set bs" for t
    using ids that by (metis image_eqI)
  then have m: "map ?h as = as" "map ?h bs = bs"
    by (simp_all add: map_idI)
  have a: "fold renderOne as s = s"
    using rec by (intro fold_renderOne_unchanged) (simp add: ts)
  let ?s1 = "s\<lparr>writes := writes s @ cellWrites t1,
           lastRenderState := (lastRenderState s)(ident t0 \<mapsto> stateHash t1)\<rparr>"
  have b: "renderOne t1 s = ?s1"
    using rec t0 by (simp add: renderOne_def ts)
  have "lastRenderState ?s1 (ident t) = Some (stateHash t)" if "t \<in> set bs" for t
  proof -
    from that ids(2) have "ident t \<noteq> ident t0" by (metis image_eqI)
    with that rec show ?thesis by (simp add: ts)
  qed
  then have c: "fold renderOne bs ?s1 = ?s1"
    by (intro fold_renderOne_unchanged) blast
  show ?thesis
    by (simp add: ts m a b c)
qed


lemma renderLoop_recorded:
  assumes "running s" "distinct (map ident (renderables s))" "t \<in> set (renderables s)"
  shows "lastRenderState (renderLoop s) (ident t) = Some (stateHash t)"
  using assms by (simp add: renderLoop_def fold_renderOne_recorded distinct_map_sort_key)

lemma renderLoop_again:
  assumes "running s" "distinct (map ident (renderables s))"
  shows "renderLoop (renderLoop s) = renderLoop s"
proof -
  have "fold renderOne (sort_key zIndex (renderables s)) (renderLoop s) = renderLoop s"
    using renderLoop_recorded[OF assms] by (intro fold_renderOne_unchanged) simp
  then show ?thesis
    using assms(1) by (simp add: renderLoop_def[of "renderLoop s"]) (simp add: renderLoop_def)
qed

lemma renderLoop_one_changed:
  assumes run: "running s" and dist: "distinct (map ident (renderables s))"
    and t0: "t0 \<in> set (renderables s)"
    and col: "isColor f" "isColor g'" "isColor (fg t0)" "isColor (bg t0)" "(f, g') \<noteq> (fg t0, bg t0)"
  shows "writes (renderLoop (setColors (ident t0) f g' (renderLoop s)))
       = writes (renderLoop s) @ cellWrites (t0\<lparr>fg := f, bg := g'\<rparr>)"
proof -
  let ?ts = "sort_key zIndex (renderables s)"
  let ?t1 = "t0\<lparr>fg := f, bg := g'\<rparr>"
  let ?h = "\<lambda>t. if ident t = ident t0 then t\<lparr>fg := f, bg := g'\<rparr> else t"
  let ?s1 = "renderLoop s"
  let ?s2 = "setColors (ident t0) f g' ?s1"
  have rs1: "renderables ?s1 = renderables s" "running ?s1"
    using run by (simp_all add: renderLoop_def)
  have s2: "renderables ?s2 = map ?h (renderables s)" "running ?s2"
    "lastRenderState ?s2 = lastRenderState ?s1" "writes ?s2 = writes ?s1"
    using rs1 by (simp_all add: setColors_def)
  have sorted: "sort_key zIndex (map ?h (renderables s)) = map ?h ?ts"
    by (rule sort_key_map_same) simp
  have inj: "inj_on ident (set (renderables s))"
    using dist by (simp add: distinct_map)
  have same: "map ?h ?ts = map (\<lambda>t. if ident t = ident t0 then ?t1 else t) ?ts"
  proof (rule map_cong[OF refl])
    fix t assume "t \<in> set ?ts"
    then have "t \<in> set (renderables s)" by simp
    with inj t0 have "ident t = ident t0 \<Longrightarrow> t = t0" by (auto dest: inj_onD)
    then show "?h t = (if ident t = ident t0 then ?t1 else t)" by auto
  qed
  have rec: "\<forall>t\<in>set ?ts. lastRenderState ?s2 (ident t) = Some (stateHash t)"
    using renderLoop_recorded[OF run dist] by (simp add: s2(3))
  have "renderLoop ?s2 = fold renderOne (map (\<lambda>t. if ident t = ident t0 then ?t1 else t) ?ts) ?s2"
    unfolding renderLoop_def[of ?s2] using s2(2) by (simp only: s2(1) sorted same if_False simp_thms)
  also have "\<dots> = ?s2\<lparr>writes := writes ?s2 @ cellWrites ?t1,
           lastRenderState := (lastRenderState ?s2)(ident t0 \<mapsto> stateHash ?t1)\<rparr>"
  proof (rule fold_renderOne_one_changed[OF rec])
    show "distinct (map ident ?ts)" using dist by (simp add: distinct_map_sort_key)
    show "t0 \<in> set ?ts" using t0 by simp
    show "ident ?t1 = ident t0" by simp
    show "stateHash ?t1 \<noteq> stateHash t0" using col by (rule stateHash_colors)
  qed
  finally show ?thesis by (simp add: s2(4))
qed

text \<open>
  Claim C5. A write operation is the sequence of writes \<open>cellWrites\<close> that updates one
  cell: cursor position, colours, content and colour reset, preceded by a line-clear only
  for an overlay (\<open>zIndex\<close> at least 1000, with a background). Let the renderer be running
  and the ids of its renderables be distinct, as the keys of a map are. Rendering the grid a
  second time writes nothing. After a rendering, changing the colours of exactly one cell
  to other colours and rendering again writes exactly the write operation of that cell, with
  its new colours, and nothing for any other cell.
\<close>

theorem diff_minimality:
  assumes "running s" and "distinct (map ident (renderables s))"
  shows "writes (renderLoop (renderLoop s)) = writes (renderLoop s)
    \<and> (\<forall>t\<in>set (renderables s). \<forall>f g'.
          isColor f \<and> isColor g' \<and> isColor (fg t) \<and> isColor (bg t) \<and> (f, g') \<noteq> (fg t, bg t) \<longrightarrow>
          writes (renderLoop (setColors (ident t) f g' (renderLoop s)))
            = writes (renderLoop s) @ cellWrites (t\<lparr>fg := f, bg := g'\<rparr>))"
  using renderLoop_again[OF assms] renderLoop_one_changed[OF assms] by simp


theorem diff_minimality_witness:
  "writes (renderLoop (renderLoop demoRenderer)) = writes (renderLoop demoRenderer)
   \<and> writes (renderLoop (setColors (str ''0-1'') (Some (str ''#0000ff'')) (Some (str ''#000000''))
         (renderLoop demoRenderer)))
     = writes (renderLoop demoRenderer)
       @ [esc @ str ''[2;1H'', esc @ str ''[38;2;0;0;255m'' @ esc @ str ''[48;2;0;0;0m'', [0x2588],
          esc @ str ''[0m'']"
proof -
  let ?t = "\<lparr>ident = str ''0-1'', content = [0x2588], xPos = 0, yPos = 1,
           fg = Some (str ''#ff0000''), bg = Some (str ''#000000''), zIndex = 1\<rparr>"
  have h: "running demoRenderer" "distinct (map ident (renderables demoRenderer))"
    by (simp_all add: demoRenderer_def str_def)
  have t: "?t \<in> set (renderables demoRenderer)"
    by (simp add: demoRenderer_def)
  have c: "isColor (Some (str ''#0000ff''))" "isColor (Some (str ''#000000''))"
    "isColor (Some (str ''#ff0000''))"
    by code_simp+
  have w: "cellWrites (?t\<lparr>fg := Some (str ''#0000ff''), bg := Some (str ''#000000'')\<rparr>)
      = [esc @ str ''[2;1H'', esc @ str ''[38;2;0;0;255m'' @ esc @ str ''[48;2;0;0;0m'', [0x2588],
         esc @ str ''[0m'']"
    by code_simp
  have n: "(Some (str ''#0000ff''), Some (str ''#000000'')) \<noteq> (fg ?t, bg ?t)"
    by (simp add: str_def)
  note d = diff_minimality[OF h]
  from d have 1: "writes (renderLoop (renderLoop demoRenderer)) = writes (renderLoop demoRenderer)"
    by blast
  from d t have "isColor (Some (str ''#0000ff'')) \<and> isColor (Some (str ''#000000''))
      \<and> isColor (fg ?t) \<and> isColor (bg ?t)
      \<and> (Some (str ''#0000ff''), Some (str ''#000000'')) \<noteq> (fg ?t, bg ?t) \<longrightarrow>
    writes (renderLoop (setColors (ident ?t) (Some (str ''#0000ff'')) (Some (str ''#000000''))
         (renderLoop demoRenderer)))
     = writes (renderLoop demoRenderer)
       @ cellWrites (?t\<lparr>fg := Some (str ''#0000ff''), bg := Some (str ''#000000'')\<rparr>)"
    by blast
  with c n have 2:
    "writes (renderLoop (setColors (ident ?t) (Some (str ''#0000ff'')) (Some (str ''#000000''))
         (renderLoop demoRenderer)))
     = writes (renderLoop demoRenderer)
       @ cellWrites (?t\<lparr>fg := Some (str ''#0000ff''), bg := Some (str ''#000000'')\<rparr>)"
    by simp
  from 1 2 show ?thesis unfolding w by simp
qed

section \<open>Process exit: what the handlers do\<close>

text \<open>
  Claim C7 asks for a non-zero exit code whenever the capture subprocess exits unexpectedly.
  When the subprocess of the dynamic resolution variant exits with code 1 outside a restart,
  the handler runs \<^verbatim>\<open>cleanup\<close>, which ends in \<^verbatim>\<open>process.exit(0)\<close>; the handler of
  the standalone script reports the code and then also exits with 0. Both exit with the
  code of a user quit. Only a failure to start the subprocess, in the standalone script,
  exits with 1.
\<close>

theorem subprocess_exit_gives_zero:
  "exitCode (ffmpegOnExit False True (Some 1)) = Some 0
   \<and> exitCode (mainFfmpegOnExit (Some 1)) = Some 0
   \<and> exitCode (keyboardOnData True (str ''q'')) = Some 0
   \<and> exitCode mainFfmpegOnError = Some 1"
  by (simp add: ffmpegOnExit_def mainFfmpegOnExit_def keyboardOnData_def mainFfmpegOnError_def
      cleanup_def quitKey_def)

end
